theory Spec2Isabelle
  imports Main
begin

section \<open>Data model (types.ts)\<close>

text \<open>
  The phases of the workflow, the enum \<^verbatim>\<open>AgentState\<close>.
\<close>

datatype AgentState =
  IDLE | BRAINSTORMING | REFLECTING | SEARCHING | COMPILING | REVIEWING | REWRITING
  | COMPLETED | ERROR

record SearchQuery =
  query :: string
  rationale :: string

text \<open>
  \<^verbatim>\<open>ReviewResult\<close> and \<^verbatim>\<open>ResearchReport\<close> both have fields called score and
  feedback; the review's fields carry the prefix \<open>review_\<close> here. The score is a JSON
  integer.
\<close>

record ReviewResult =
  review_score :: int
  review_feedback :: string
  approved :: bool

record Source =
  title :: string
  uri :: string

record ResearchReport =
  topic :: string
  markdown :: string
  sources :: "Source list"
  score :: "int option"
  feedback :: "string option"
  version :: nat

text \<open>
  The \<^verbatim>\<open>details\<close> of a log entry are typed \<^verbatim>\<open>any\<close>; these are the payloads the
  controller passes. The \<^verbatim>\<open>id\<close> and \<^verbatim>\<open>timestamp\<close> of an entry come from
  \<^verbatim>\<open>crypto.randomUUID()\<close> and \<^verbatim>\<open>new Date()\<close> and are not part of the model.
\<close>

datatype Details =
  NoDetails
  | QueriesDetails "SearchQuery list"
  | FeedbackDetails string
  | NumberDetails nat
  | TextDetails string
  | NewSourcesFound nat

record LogEntry =
  step :: AgentState
  message :: string
  details :: Details

section \<open>Strings and errors of the host language\<close>

text \<open>
  A thrown \<^verbatim>\<open>Error\<close> object: its \<^verbatim>\<open>name\<close> and its \<^verbatim>\<open>message\<close>.
\<close>

datatype JsError = JsError (error_name: string) (error_message: string)

definition Error :: "string \<Rightarrow> JsError" where
  "Error msg = JsError ''Error'' msg"

text \<open>
  \<^verbatim>\<open>String(error)\<close>, that is \<^verbatim>\<open>Error.prototype.toString\<close>.
\<close>

definition String_of_error :: "JsError \<Rightarrow> string" where
  "String_of_error e =
     (if error_name e = [] then error_message e
      else if error_message e = [] then error_name e
      else error_name e @ '': '' @ error_message e)"

text \<open>
  Decimal rendering of an array length or a counter in a template literal.
\<close>

definition digit_char :: "nat \<Rightarrow> char" where
  "digit_char d = ''0123456789'' ! d"

fun decimal :: "nat \<Rightarrow> string" where
  "decimal n = (if 10 \<le> n then decimal (n div 10) else []) @ [digit_char (n mod 10)]"

declare decimal.simps [simp del]

text \<open>
  \<^verbatim>\<open>Number.prototype.toString\<close> of an integer, as a template literal applies it to
  \<^verbatim>\<open>review.score\<close>. A number is a double: \<open>toDouble\<close> rounds an integer to the nearest
  integer a double holds (ties to the even significand), \<open>ulp x\<close> being the distance
  between the doubles around \<open>x\<close>. The digits printed are the shortest that round to the
  number (\<open>roundsTo\<close>, \<open>shortest\<close>, which tries ever finer powers of ten and takes the
  multiple nearest to the number), followed by zeros up to 21 digits and in exponent
  notation beyond.
\<close>

fun bitLength :: "nat \<Rightarrow> nat" where
  "bitLength n = (if n = 0 then 0 else Suc (bitLength (n div 2)))"

declare bitLength.simps [simp del]

definition ulp :: "nat \<Rightarrow> nat" where
  "ulp x = 2 ^ (bitLength x - 53)"

definition toDouble :: "nat \<Rightarrow> nat" where
  "toDouble x =
     (let u = ulp x; q = x div u; r = x mod u
      in if 2 * r < u \<or> (2 * r = u \<and> even q) then q * u else (q + 1) * u)"

definition roundsTo :: "nat \<Rightarrow> nat \<Rightarrow> bool" where
  "roundsTo x c =
     (let u = ulp x;
          low4 = 4 * int x - int (if x = 2 ^ (bitLength x - 1) then u else 2 * u);
          high4 = 4 * int x + int (2 * u);
          c4 = 4 * int c
      in (low4 < c4 \<and> c4 < high4) \<or> (even (x div u) \<and> (c4 = low4 \<or> c4 = high4)))"

fun shortest :: "nat \<Rightarrow> nat \<Rightarrow> nat" where
  "shortest x 0 = x"
| "shortest x (Suc j) =
     (let p = 10 ^ Suc j; s = x div p; c1 = s * p; c2 = c1 + p
      in if roundsTo x c1 \<and> roundsTo x c2
         then (if x - c1 < c2 - x \<or> (x - c1 = c2 - x \<and> even s) then c1 else c2)
         else if roundsTo x c1 then c1
         else if roundsTo x c2 then c2
         else shortest x j)"

definition Number_toString_pos :: "nat \<Rightarrow> string" where
  "Number_toString_pos i =
     (let x = toDouble i
      in if 2 ^ 1024 \<le> x then ''Infinity''
         else
           let ds = decimal (shortest x (length (decimal x) - 1));
               n = length ds;
               sd = rev (dropWhile (\<lambda>d. d = CHR ''0'') (rev ds))
           in if n \<le> 21 then ds
              else (if length sd = 1 then sd else hd sd # ''.'' @ tl sd)
                     @ ''e+'' @ decimal (n - 1))"

definition Number_toString :: "int \<Rightarrow> string" where
  "Number_toString i =
     (if i = 0 then ''0''
      else if i < 0 then ''-'' @ Number_toString_pos (nat (- i))
      else Number_toString_pos (nat i))"

text \<open>
  \<^verbatim>\<open>String.prototype.trim\<close>. A \<^typ>\<open>char\<close> is read as a code unit below 256, so the
  white space and line terminators in range are TAB, LF, VT, FF, CR, SP and NBSP.
\<close>

definition isWhiteSpace :: "char \<Rightarrow> bool" where
  "isWhiteSpace c = (of_char c \<in> {9, 10, 11, 12, 13, 32, 160 :: nat})"

definition trim :: "string \<Rightarrow> string" where
  "trim s = rev (dropWhile isWhiteSpace (rev (dropWhile isWhiteSpace s)))"

definition newline :: string where
  "newline = [CHR 0x0A]"

section \<open>The generation service (services/geminiService.ts)\<close>

text \<open>
  What \<^verbatim>\<open>ai.models.generateContent\<close> gives back. For the calls with a JSON response
  schema the text is modelled by what \<^verbatim>\<open>JSON.parse\<close> makes of it: \<open>NoText\<close> is an
  absent or empty \<^verbatim>\<open>response.text\<close>, \<open>NotJson m\<close> a text on which \<^verbatim>\<open>JSON.parse\<close>
  throws a \<^verbatim>\<open>SyntaxError\<close> with message \<open>m\<close>, \<open>JsonOf v\<close> a text that parses to \<open>v\<close>.
\<close>

datatype 'a JsonText = NoText | NotJson string | JsonOf 'a

datatype Web = Web (web_uri: "string option") (web_title: "string option")

datatype GroundingChunk = GroundingChunk (web: "Web option")

text \<open>
  A settled \<^verbatim>\<open>generateContent\<close> promise. \<open>Rejected e\<close>: the promise rejects with
  \<open>e\<close>. \<open>Queries\<close> and \<open>Review\<close>: the response of a call with the query-list schema and
  with the review schema. \<open>Grounded text chunks\<close>: the response of a call with the search
  tool, \<^verbatim>\<open>response.text\<close> and
  \<^verbatim>\<open>response.candidates?.[0]?.groundingMetadata?.groundingChunks\<close> (\<open>None\<close> when
  any link of that chain is undefined).
\<close>

datatype Reply =
  Rejected JsError
  | Queries "SearchQuery list JsonText"
  | Review "ReviewResult JsonText"
  | Grounded "string option" "GroundingChunk list option"

definition parseJson :: "'a JsonText \<Rightarrow> JsError + 'a" where
  "parseJson t =
     (case t of
        NoText \<Rightarrow> Inl (Error ''No response from Gemini'')
      | NotJson m \<Rightarrow> Inl (JsError ''SyntaxError'' m)
      | JsonOf v \<Rightarrow> Inr v)"

text \<open>
  The part of \<^verbatim>\<open>brainstormQueries\<close>, \<^verbatim>\<open>reflectAndRefineQueries\<close> and
  \<^verbatim>\<open>reviewReport\<close> after their await: \<^verbatim>\<open>if (!text) throw ...; return JSON.parse(text)\<close>.
\<close>

definition brainstormQueries :: "SearchQuery list JsonText \<Rightarrow> JsError + SearchQuery list" where
  "brainstormQueries t = parseJson t"

definition reflectAndRefineQueries :: "SearchQuery list JsonText \<Rightarrow> JsError + SearchQuery list" where
  "reflectAndRefineQueries t = parseJson t"

definition reviewReport :: "ReviewResult JsonText \<Rightarrow> JsError + ReviewResult" where
  "reviewReport t = parseJson t"

text \<open>
  \<^verbatim>\<open>groundingChunks.map(chunk => chunk.web).filter(web => web && web.uri && web.title)\<close>:
  an undefined web entry, and an undefined or empty uri or title, are falsy.
\<close>

fun truthy :: "string option \<Rightarrow> bool" where
  "truthy None = False"
| "truthy (Some s) = (s \<noteq> [])"

fun extractSources :: "GroundingChunk list \<Rightarrow> Source list" where
  "extractSources [] = []"
| "extractSources (GroundingChunk None # cs) = extractSources cs"
| "extractSources (GroundingChunk (Some (Web u t)) # cs) =
     (if truthy u \<and> truthy t then \<lparr>title = the t, uri = the u\<rparr> # extractSources cs
      else extractSources cs)"

text \<open>
  \<^verbatim>\<open>Array.from(new Map(sources.map(s => [s.uri, s])).values())\<close>. A \<^verbatim>\<open>Map\<close> keeps
  its keys in insertion order; setting a key that is present replaces the value where
  the key stands.
\<close>

fun Map_set :: "(string \<times> Source) list \<Rightarrow> string \<Rightarrow> Source \<Rightarrow> (string \<times> Source) list" where
  "Map_set [] k v = [(k, v)]"
| "Map_set ((k', v') # m) k v = (if k' = k then (k', v) # m else (k', v') # Map_set m k v)"

definition new_Map :: "(string \<times> Source) list \<Rightarrow> (string \<times> Source) list" where
  "new_Map entries = foldl (\<lambda>m (k, v). Map_set m k v) [] entries"

definition uniqueSources :: "Source list \<Rightarrow> Source list" where
  "uniqueSources srcs = map snd (new_Map (map (\<lambda>s. (uri s, s)) srcs))"

definition groundedSources :: "GroundingChunk list option \<Rightarrow> Source list" where
  "groundedSources chunks =
     uniqueSources (extractSources (case chunks of None \<Rightarrow> [] | Some cs \<Rightarrow> cs))"

text \<open>
  The part of \<^verbatim>\<open>searchAndCompile\<close> after its await.
\<close>

definition searchAndCompile ::
  "string option \<Rightarrow> GroundingChunk list option \<Rightarrow> JsError + (string \<times> Source list)" where
  "searchAndCompile text groundingChunks =
     (let uniq = groundedSources groundingChunks
      in if \<not> truthy text then Inl (Error ''No response from Gemini'')
         else Inr (the text, uniq))"

text \<open>
  The part of \<^verbatim>\<open>askFollowUp\<close> after its await; \<open>aborted\<close> is \<^verbatim>\<open>signal?.aborted\<close>
  at that moment.
\<close>

definition askFollowUp ::
  "bool \<Rightarrow> string option \<Rightarrow> GroundingChunk list option \<Rightarrow> JsError + (string \<times> Source list)" where
  "askFollowUp aborted text groundingChunks =
     (if aborted then Inl (Error ''Aborted'')
      else let uniq = groundedSources groundingChunks
           in if \<not> truthy text then Inl (Error ''No response from Gemini'')
              else Inr (the text, uniq))"

section \<open>The controller (App.tsx)\<close>

definition MAX_RETRIES :: nat where
  "MAX_RETRIES = 2"

text \<open>
  A run of \<^verbatim>\<open>startResearch\<close> or \<^verbatim>\<open>handleFollowUp\<close> is suspended at one await at a
  time. A continuation holds the variables of the closure at that await, the arguments
  of the call in flight among them:
  \<^item> \<open>AwaitBrainstorm topic\<close>: at \<^verbatim>\<open>await brainstormQueries(topic)\<close>;
  \<^item> \<open>AwaitReflect topic initialQueries\<close>: at \<^verbatim>\<open>await reflectAndRefineQueries(initialQueries)\<close>;
  \<^item> \<open>AwaitSearchAndCompile currentTopic currentQueries feedback previousReportMarkdown\<close>:
    at \<^verbatim>\<open>await searchAndCompile(...)\<close>;
  \<^item> \<open>AwaitReview currentTopic currentQueries markdown tempReport\<close>: at
    \<^verbatim>\<open>await reviewReport(currentTopic, markdown)\<close>;
  \<^item> \<open>AwaitFollowUp report query\<close>: at \<^verbatim>\<open>await askFollowUp(...)\<close>, with the report
    the handler was rendered with.
\<close>

datatype Continuation =
  AwaitBrainstorm string
  | AwaitReflect string "SearchQuery list"
  | AwaitSearchAndCompile string "SearchQuery list" "string option" "string option"
  | AwaitReview string "SearchQuery list" string ResearchReport
  | AwaitFollowUp ResearchReport string

text \<open>
  The state of the component: the values of \<^verbatim>\<open>useState\<close> and \<^verbatim>\<open>useRef\<close>, and the
  heap they point into. Every \<^verbatim>\<open>AbortController\<close> made so far has a number below
  \<open>created\<close>; \<open>aborted\<close> holds those whose signal is aborted. Each run makes its own
  controller and captures its signal, so a suspended run is filed in \<open>pending\<close> under the
  number of its controller.
\<close>

record Controller =
  state :: AgentState
  logs :: "LogEntry list"
  report :: "ResearchReport option"
  queries :: "SearchQuery list"
  retryCount :: nat
  abortControllerRef :: "nat option"
  aborted :: "nat set"
  created :: nat
  pending :: "nat \<rightharpoonup> Continuation"

definition initial :: Controller where
  "initial = \<lparr>state = IDLE, logs = [], report = None, queries = [], retryCount = 0,
     abortControllerRef = None, aborted = {}, created = 0, pending = Map.empty\<rparr>"

text \<open>
  How a stretch of code between two awaits ends: it returns (or suspends at the next
  await), or it throws, in the state it has reached.
\<close>

datatype Completion = Thrown JsError Controller | Returned Controller

definition setState :: "AgentState \<Rightarrow> Controller \<Rightarrow> Controller" where
  "setState p s = s\<lparr>state := p\<rparr>"

definition setReport :: "ResearchReport option \<Rightarrow> Controller \<Rightarrow> Controller" where
  "setReport r s = s\<lparr>report := r\<rparr>"

definition addLog :: "AgentState \<Rightarrow> string \<Rightarrow> Details \<Rightarrow> Controller \<Rightarrow> Controller" where
  "addLog p msg d s = s\<lparr>logs := logs s @ [\<lparr>step = p, message = msg, details = d\<rparr>]\<rparr>"

definition isAbort :: "JsError \<Rightarrow> bool" where
  "isAbort e = (error_message e = ''Aborted'' \<or> error_name e = ''AbortError'')"

text \<open>
  \<^verbatim>\<open>error.message || String(error)\<close>
\<close>

definition errorDetails :: "JsError \<Rightarrow> string" where
  "errorDetails e = (if error_message e \<noteq> [] then error_message e else String_of_error e)"

definition handleError :: "JsError \<Rightarrow> Controller \<Rightarrow> Controller" where
  "handleError e s =
     (if isAbort e
      then setState IDLE (addLog IDLE ''Research stopped by user.'' NoDetails s)
      else addLog ERROR ''An error occurred'' (TextDetails (errorDetails e)) (setState ERROR s))"

definition stopResearch :: "Controller \<Rightarrow> Controller" where
  "stopResearch s =
     (case abortControllerRef s of
        Some ac \<Rightarrow> s\<lparr>abortControllerRef := None, aborted := insert ac (aborted s)\<rparr>
      | None \<Rightarrow> s)"

text \<open>
  \<^verbatim>\<open>const ac = new AbortController(); abortControllerRef.current = ac;\<close>
  The new controller is number \<open>created s\<close>.
\<close>

definition new_AbortController :: "Controller \<Rightarrow> Controller" where
  "new_AbortController s = s\<lparr>abortControllerRef := Some (created s), created := Suc (created s)\<rparr>"

definition await :: "nat \<Rightarrow> Continuation \<Rightarrow> Controller \<Rightarrow> Completion" where
  "await signal k s = Returned (s\<lparr>pending := (pending s)(signal \<mapsto> k)\<rparr>)"

definition dquote :: string where
  "dquote = [CHR 0x22]"

text \<open>
  \<^verbatim>\<open>runSearchAndCompileLoop\<close> from its entry to its first await.
\<close>

definition runSearchAndCompileLoop ::
  "nat \<Rightarrow> string \<Rightarrow> SearchQuery list \<Rightarrow> string option \<Rightarrow> string option \<Rightarrow> Controller
   \<Rightarrow> Completion" where
  "runSearchAndCompileLoop signal currentTopic currentQueries fb previousReportMarkdown s =
     (if signal \<in> aborted s then Thrown (Error ''Aborted'') s
      else
        let isRetry = truthy fb;
            s1 = setState (if isRetry then REWRITING else SEARCHING) s;
            s2 = (if isRetry
                  then addLog REWRITING
                         (''Rewriting report (Attempt '' @ decimal (retryCount s1) @ ''/''
                            @ decimal MAX_RETRIES @ '')...'')
                         (FeedbackDetails (the fb)) s1
                  else addLog SEARCHING
                         ''Searching web (via Google Grounding) and compiling report...''
                         NoDetails s1);
            s3 = (if \<not> isRetry then setState COMPILING s2 else s2)
        in await signal
             (AwaitSearchAndCompile currentTopic currentQueries fb previousReportMarkdown) s3)"

text \<open>
  \<^verbatim>\<open>runSearchAndCompileLoop\<close> from the await of \<^verbatim>\<open>searchAndCompile\<close> to the await of
  \<^verbatim>\<open>reviewReport\<close>.
\<close>

definition afterSearchAndCompile ::
  "nat \<Rightarrow> string \<Rightarrow> SearchQuery list \<Rightarrow> JsError + (string \<times> Source list) \<Rightarrow> Controller
   \<Rightarrow> Completion" where
  "afterSearchAndCompile signal currentTopic currentQueries result s =
     (case result of
        Inl e \<Rightarrow> Thrown e s
      | Inr (md, srcs) \<Rightarrow>
          if signal \<in> aborted s then Thrown (Error ''Aborted'') s
          else
            let s1 = addLog COMPILING ''Report compiled. Sources found:''
                       (NumberDetails (length srcs)) s;
                tempReport = \<lparr>topic = currentTopic, markdown = md, sources = srcs,
                               score = None, feedback = None, version = retryCount s1 + 1\<rparr>;
                s2 = setReport (Some tempReport) s1;
                s3 = setState REVIEWING s2;
                s4 = addLog REVIEWING ''Sending report to reviewer agent...'' NoDetails s3
            in await signal (AwaitReview currentTopic currentQueries md tempReport) s4)"

text \<open>
  \<^verbatim>\<open>runSearchAndCompileLoop\<close> from the await of \<^verbatim>\<open>reviewReport\<close> on: the decision
  between another pass and completion.
\<close>

definition afterReview ::
  "nat \<Rightarrow> string \<Rightarrow> SearchQuery list \<Rightarrow> string \<Rightarrow> ResearchReport \<Rightarrow> JsError + ReviewResult
   \<Rightarrow> Controller \<Rightarrow> Completion" where
  "afterReview signal currentTopic currentQueries md tempReport result s =
     (case result of
        Inl e \<Rightarrow> Thrown e s
      | Inr review \<Rightarrow>
          if signal \<in> aborted s then Thrown (Error ''Aborted'') s
          else
            let s1 = addLog REVIEWING
                       (''Review Complete. Score: '' @ Number_toString (review_score review) @ ''/5'')
                       (TextDetails (review_feedback review)) s;
                scoredReport = tempReport\<lparr>score := Some (review_score review),
                                            feedback := Some (review_feedback review)\<rparr>;
                s2 = setReport (Some scoredReport) s1
            in if review_score review < 4 \<and> retryCount s2 < MAX_RETRIES
               then
                 let s3 = s2\<lparr>retryCount := retryCount s2 + 1\<rparr>;
                     s4 = addLog REVIEWING ''Score too low (<4). Initiating rewrite loop.''
                            NoDetails s3
                 in runSearchAndCompileLoop signal currentTopic currentQueries
                      (Some (review_feedback review)) (Some md) s4
               else
                 let s3 = (if review_score review < 4
                           then addLog COMPLETED
                                  ''Max retries reached. Finalizing report despite low score.''
                                  NoDetails s2
                           else addLog COMPLETED ''Report approved! Research complete.''
                                  NoDetails s2)
                 in Returned (setState COMPLETED s3))"

text \<open>
  The body of the \<^verbatim>\<open>try\<close> of \<^verbatim>\<open>startResearch\<close>, from the await of
  \<^verbatim>\<open>brainstormQueries\<close> and from the await of \<^verbatim>\<open>reflectAndRefineQueries\<close>.
\<close>

definition afterBrainstorm ::
  "nat \<Rightarrow> string \<Rightarrow> JsError + SearchQuery list \<Rightarrow> Controller \<Rightarrow> Completion" where
  "afterBrainstorm signal tpc result s =
     (case result of
        Inl e \<Rightarrow> Thrown e s
      | Inr initialQueries \<Rightarrow>
          if signal \<in> aborted s then Thrown (Error ''Aborted'') s
          else
            let s1 = addLog BRAINSTORMING
                       (''Generated '' @ decimal (length initialQueries)
                          @ '' initial queries'')
                       (QueriesDetails initialQueries) s;
                s2 = setState REFLECTING s1;
                s3 = addLog REFLECTING ''Reflecting and refining queries...'' NoDetails s2
            in await signal (AwaitReflect tpc initialQueries) s3)"

definition afterReflect ::
  "nat \<Rightarrow> string \<Rightarrow> JsError + SearchQuery list \<Rightarrow> Controller \<Rightarrow> Completion" where
  "afterReflect signal tpc result s =
     (case result of
        Inl e \<Rightarrow> Thrown e s
      | Inr refinedQueries \<Rightarrow>
          if signal \<in> aborted s then Thrown (Error ''Aborted'') s
          else
            let s1 = s\<lparr>queries := refinedQueries\<rparr>;
                s2 = addLog REFLECTING
                       (''Selected top '' @ decimal (length refinedQueries) @ '' queries'')
                       (QueriesDetails refinedQueries) s1
            in runSearchAndCompileLoop signal tpc refinedQueries None None s2)"

text \<open>
  \<^verbatim>\<open>catch (error) { handleError(error); }\<close> of \<^verbatim>\<open>startResearch\<close>.
\<close>

fun catch :: "Completion \<Rightarrow> Controller" where
  "catch (Thrown e s) = handleError e s"
| "catch (Returned s) = s"

definition startResearch :: "string \<Rightarrow> Controller \<Rightarrow> Controller" where
  "startResearch tpc s =
     (if trim tpc = [] then s
      else
        let s0 = stopResearch s;
            signal = created s0;
            s1 = new_AbortController s0;
            s2 = setState BRAINSTORMING s1;
            s3 = s2\<lparr>logs := []\<rparr>;
            s4 = setReport None s3;
            s5 = s4\<lparr>queries := []\<rparr>;
            s6 = s5\<lparr>retryCount := 0\<rparr>;
            s7 = addLog IDLE (''Starting research on: '' @ dquote @ tpc @ dquote) NoDetails s6
        in catch
             (if signal \<in> aborted s7 then Thrown (Error ''Aborted'') s7
              else await signal (AwaitBrainstorm tpc)
                     (addLog BRAINSTORMING ''Brainstorming search queries...'' NoDetails s7)))"

text \<open>
  \<^verbatim>\<open>handleFollowUp\<close> up to the await inside \<^verbatim>\<open>askFollowUp\<close>, whose first statement
  is the check of the signal, and the \<^verbatim>\<open>catch\<close> of \<^verbatim>\<open>handleFollowUp\<close>.
\<close>

definition catchFollowUp :: "JsError \<Rightarrow> Controller \<Rightarrow> Controller" where
  "catchFollowUp e s =
     (if isAbort e
      then setState COMPLETED (addLog COMPLETED ''Follow-up stopped by user.'' NoDetails s)
      else setState COMPLETED (handleError e s))"

definition handleFollowUp :: "string \<Rightarrow> Controller \<Rightarrow> Controller" where
  "handleFollowUp q s =
     (case report s of
        None \<Rightarrow> s
      | Some rep \<Rightarrow>
          let s0 = stopResearch s;
              signal = created s0;
              s1 = new_AbortController s0;
              s2 = setState SEARCHING s1;
              s3 = addLog SEARCHING
                     (''Processing follow-up question: '' @ dquote @ q @ dquote) NoDetails s2
          in if signal \<in> aborted s3 then catchFollowUp (Error ''Aborted'') s3
             else s3\<lparr>pending := (pending s3)(signal \<mapsto> AwaitFollowUp rep q)\<rparr>)"

text \<open>
  \<^verbatim>\<open>handleFollowUp\<close> from the await of \<^verbatim>\<open>askFollowUp\<close> on.
\<close>

definition afterAskFollowUp ::
  "ResearchReport \<Rightarrow> string \<Rightarrow> JsError + (string \<times> Source list) \<Rightarrow> Controller \<Rightarrow> Controller" where
  "afterAskFollowUp rep q result s =
     (case result of
        Inl e \<Rightarrow> catchFollowUp e s
      | Inr (answer, srcs) \<Rightarrow>
          let newMarkdown = markdown rep @ newline @ newline @ ''---'' @ newline @ newline
                              @ ''### Follow-up: '' @ q @ newline @ newline @ answer;
              existingUris = set (map uri (sources rep));
              newUniqueSources = filter (\<lambda>s. uri s \<notin> existingUris) srcs;
              updatedSources = sources rep @ newUniqueSources;
              s1 = setReport (Some (rep\<lparr>markdown := newMarkdown, sources := updatedSources\<rparr>)) s;
              s2 = addLog COMPLETED ''Follow-up answer added to report.''
                     (NewSourcesFound (length newUniqueSources)) s1
          in setState COMPLETED s2)"

section \<open>Events\<close>

text \<open>
  The component reacts to the user's actions and to the settling of the call a run is
  suspended at. Between two awaits its code runs without interruption. \<open>Settle c reply\<close>
  settles the call of the run with controller \<open>c\<close>; it does nothing when that run is not
  suspended or when the reply is not of the kind its call gives.
\<close>

datatype Event = Start string | Stop | FollowUp string | Settle nat Reply

fun resume :: "nat \<Rightarrow> Continuation \<Rightarrow> Reply \<Rightarrow> Controller \<Rightarrow> Controller option" where
  "resume c (AwaitBrainstorm tpc) (Rejected e) s = Some (catch (afterBrainstorm c tpc (Inl e) s))"
| "resume c (AwaitBrainstorm tpc) (Queries t) s =
     Some (catch (afterBrainstorm c tpc (brainstormQueries t) s))"
| "resume c (AwaitReflect tpc qs) (Rejected e) s = Some (catch (afterReflect c tpc (Inl e) s))"
| "resume c (AwaitReflect tpc qs) (Queries t) s =
     Some (catch (afterReflect c tpc (reflectAndRefineQueries t) s))"
| "resume c (AwaitSearchAndCompile tpc qs fb prev) (Rejected e) s =
     Some (catch (afterSearchAndCompile c tpc qs (Inl e) s))"
| "resume c (AwaitSearchAndCompile tpc qs fb prev) (Grounded text chunks) s =
     Some (catch (afterSearchAndCompile c tpc qs (searchAndCompile text chunks) s))"
| "resume c (AwaitReview tpc qs md tmp) (Rejected e) s =
     Some (catch (afterReview c tpc qs md tmp (Inl e) s))"
| "resume c (AwaitReview tpc qs md tmp) (Review t) s =
     Some (catch (afterReview c tpc qs md tmp (reviewReport t) s))"
| "resume c (AwaitFollowUp rep q) (Rejected e) s = Some (afterAskFollowUp rep q (Inl e) s)"
| "resume c (AwaitFollowUp rep q) (Grounded text chunks) s =
     Some (afterAskFollowUp rep q (askFollowUp (c \<in> aborted s) text chunks) s)"
| "resume c k reply s = None"

definition settle :: "nat \<Rightarrow> Reply \<Rightarrow> Controller \<Rightarrow> Controller" where
  "settle c reply s =
     (case pending s c of
        None \<Rightarrow> s
      | Some k \<Rightarrow>
          (case resume c k reply (s\<lparr>pending := (pending s)(c := None)\<rparr>) of
             None \<Rightarrow> s
           | Some s' \<Rightarrow> s'))"

fun react :: "Controller \<Rightarrow> Event \<Rightarrow> Controller" where
  "react s (Start tpc) = startResearch tpc s"
| "react s Stop = stopResearch s"
| "react s (FollowUp q) = handleFollowUp q s"
| "react s (Settle c reply) = settle c reply s"

definition exec :: "Event list \<Rightarrow> Controller \<Rightarrow> Controller" where
  "exec evs s = foldl react s evs"

section \<open>Notions used in the statements\<close>

text \<open>
  The continuations of the main pipeline, those of \<^verbatim>\<open>startResearch\<close> and
  \<^verbatim>\<open>runSearchAndCompileLoop\<close>.
\<close>

fun mainPipeline :: "Continuation \<Rightarrow> bool" where
  "mainPipeline (AwaitFollowUp rep q) = False"
| "mainPipeline k = True"

text \<open>
  What the service function a main-pipeline run is suspended in does with a reply:
  \<open>Some (Inl e)\<close> when it throws \<open>e\<close>, \<open>Some (Inr ())\<close> when it returns a value, \<open>None\<close>
  when the reply is not of the kind of its call.
\<close>

fun serviceOutcome :: "Continuation \<Rightarrow> Reply \<Rightarrow> (JsError + unit) option" where
  "serviceOutcome k (Rejected e) = Some (Inl e)"
| "serviceOutcome (AwaitBrainstorm tpc) (Queries t) = Some (map_sum id (\<lambda>v. ()) (brainstormQueries t))"
| "serviceOutcome (AwaitReflect tpc qs) (Queries t) =
     Some (map_sum id (\<lambda>v. ()) (reflectAndRefineQueries t))"
| "serviceOutcome (AwaitSearchAndCompile tpc qs fb prev) (Grounded text chunks) =
     Some (map_sum id (\<lambda>v. ()) (searchAndCompile text chunks))"
| "serviceOutcome (AwaitReview tpc qs md tmp) (Review t) =
     Some (map_sum id (\<lambda>v. ()) (reviewReport t))"
| "serviceOutcome k reply = None"

definition stoppedEntry :: LogEntry where
  "stoppedEntry = \<lparr>step = IDLE, message = ''Research stopped by user.'', details = NoDetails\<rparr>"

definition errorEntry :: "JsError \<Rightarrow> LogEntry" where
  "errorEntry e =
     \<lparr>step = ERROR, message = ''An error occurred'', details = TextDetails (errorDetails e)\<rparr>"

text \<open>
  The grounding chunks that pass the filter of \<^verbatim>\<open>searchAndCompile\<close> and
  \<^verbatim>\<open>askFollowUp\<close>: a web entry with a truthy uri and a truthy title.
\<close>

definition complete :: "GroundingChunk \<Rightarrow> bool" where
  "complete c =
     (case web c of None \<Rightarrow> False | Some w \<Rightarrow> truthy (web_uri w) \<and> truthy (web_title w))"

definition example_chunks :: "GroundingChunk list" where
  "example_chunks =
     [GroundingChunk (Some (Web (Some ''https://a'') (Some ''A''))),
      GroundingChunk (Some (Web (Some ''https://b'') (Some ''''))),
      GroundingChunk (Some (Web None (Some ''C''))),
      GroundingChunk None,
      GroundingChunk (Some (Web (Some ''https://d'') None))]"

text \<open>
  What holds of the abort controllers in every state the component can reach: the
  controllers in use have been created, the current one is not aborted, and a suspended
  run whose signal is not aborted is the run of the current controller.
\<close>

definition wellFormed :: "Controller \<Rightarrow> bool" where
  "wellFormed s \<longleftrightarrow>
     (\<forall>c\<in>aborted s. c < created s) \<and>
     (\<forall>c k. pending s c = Some k \<longrightarrow>
        c < created s \<and> (c \<in> aborted s \<or> abortControllerRef s = Some c)) \<and>
     (\<forall>c. abortControllerRef s = Some c \<longrightarrow> c < created s \<and> c \<notin> aborted s)"

text \<open>
  What the statements observe of an event. A rewrite iteration is entered at an event
  when the run whose call it settles was suspended at its review before and is suspended
  at another \<^verbatim>\<open>searchAndCompile\<close> call after. A run completes at an event when the run
  whose call it settles was suspended at its review before, has ended after, and the
  phase is \<open>COMPLETED\<close> after. A start with a topic that is not blank begins a new run.
\<close>

fun settledRun :: "Event \<Rightarrow> nat option" where
  "settledRun (Settle c reply) = Some c"
| "settledRun ev = None"

fun awaitsReview :: "Continuation option \<Rightarrow> bool" where
  "awaitsReview (Some (AwaitReview tpc qs md tmp)) = True"
| "awaitsReview k = False"

fun awaitsSearchAndCompile :: "Continuation option \<Rightarrow> bool" where
  "awaitsSearchAndCompile (Some (AwaitSearchAndCompile tpc qs fb prev)) = True"
| "awaitsSearchAndCompile k = False"

definition entersRewrite :: "Controller \<Rightarrow> Event \<Rightarrow> bool" where
  "entersRewrite s ev =
     (case settledRun ev of
        None \<Rightarrow> False
      | Some c \<Rightarrow> awaitsReview (pending s c) \<and> awaitsSearchAndCompile (pending (react s ev) c))"

definition completesRun :: "Controller \<Rightarrow> Event \<Rightarrow> bool" where
  "completesRun s ev =
     (case settledRun ev of
        None \<Rightarrow> False
      | Some c \<Rightarrow> awaitsReview (pending s c) \<and> pending (react s ev) c = None \<and>
                  state (react s ev) = COMPLETED)"

fun beginsRun :: "Event \<Rightarrow> bool" where
  "beginsRun (Start tpc) = (trim tpc \<noteq> [])"
| "beginsRun ev = False"

text \<open>
  The number of rewrite iterations the current run has entered, counted on the events
  since the component was mounted.
\<close>

fun countRewrites :: "Controller \<Rightarrow> nat \<Rightarrow> Event list \<Rightarrow> nat" where
  "countRewrites s n [] = n"
| "countRewrites s n (ev # evs) =
     countRewrites (react s ev)
       (if beginsRun ev then 0 else if entersRewrite s ev then Suc n else n) evs"

definition rewriteIterations :: "Event list \<Rightarrow> nat" where
  "rewriteIterations evs = countRewrites initial 0 evs"

definition loopInvariant :: "Controller \<Rightarrow> bool" where
  "loopInvariant s \<longleftrightarrow>
     retryCount s \<le> MAX_RETRIES \<and>
     (\<forall>c tpc qs md tmp. pending s c = Some (AwaitReview tpc qs md tmp) \<and> c \<notin> aborted s
        \<longrightarrow> version tmp = retryCount s + 1)"

text \<open>
  The replies without text content: \<^verbatim>\<open>!text\<close> holds of an absent and of an empty
  \<^verbatim>\<open>response.text\<close>.
\<close>

fun noText :: "Reply \<Rightarrow> bool" where
  "noText (Queries t) = (t = NoText)"
| "noText (Review t) = (t = NoText)"
| "noText (Grounded body chunks) = (body = None \<or> body = Some [])"
| "noText (Rejected e) = False"

definition distinctUris :: "ResearchReport \<Rightarrow> bool" where
  "distinctUris r = distinct (map uri (sources r))"

definition sourcesInvariant :: "Controller \<Rightarrow> bool" where
  "sourcesInvariant s \<longleftrightarrow>
     (\<forall>r. report s = Some r \<longrightarrow> distinctUris r) \<and>
     (\<forall>c tpc qs md tmp. pending s c = Some (AwaitReview tpc qs md tmp) \<longrightarrow> distinctUris tmp) \<and>
     (\<forall>c r q. pending s c = Some (AwaitFollowUp r q) \<longrightarrow> distinctUris r)"

text \<open>
  Log entries that several statements mention: the entry \<^verbatim>\<open>runSearchAndCompileLoop\<close>
  writes on entry, and the entry for a review.
\<close>

definition loopEntryLog :: "nat \<Rightarrow> string option \<Rightarrow> LogEntry" where
  "loopEntryLog n fb =
     (if truthy fb
      then \<lparr>step = REWRITING,
            message = ''Rewriting report (Attempt '' @ decimal n @ ''/'' @ decimal MAX_RETRIES
                        @ '')...'',
            details = FeedbackDetails (the fb)\<rparr>
      else \<lparr>step = SEARCHING,
            message = ''Searching web (via Google Grounding) and compiling report...'',
            details = NoDetails\<rparr>)"

definition reviewLog :: "ReviewResult \<Rightarrow> LogEntry" where
  "reviewLog review =
     \<lparr>step = REVIEWING,
       message = ''Review Complete. Score: '' @ Number_toString (review_score review) @ ''/5'',
       details = TextDetails (review_feedback review)\<rparr>"

text \<open>
  What \<^verbatim>\<open>handleFollowUp\<close> appends to the markdown of the report:
  \<^verbatim>\<open>`\n\n---\n\n### Follow-up: ${query}\n\n${answer}`\<close>.
\<close>

definition followUpSection :: "string \<Rightarrow> string \<Rightarrow> string" where
  "followUpSection q answer =
     newline @ newline @ ''---'' @ newline @ newline @ ''### Follow-up: '' @ q
       @ newline @ newline @ answer"

text \<open>
  Removing duplicates with the first entry of each uri kept, as the specification words
  it (``order preserved, first-seen wins''). This function follows the specification, not
  the source; it is compared with \<open>uniqueSources\<close> below.
\<close>

fun keepFirst :: "string set \<Rightarrow> Source list \<Rightarrow> Source list" where
  "keepFirst seen [] = []"
| "keepFirst seen (x # xs) =
     (if uri x \<in> seen then keepFirst seen xs else x # keepFirst (insert (uri x) seen) xs)"

definition firstSeenWins :: "Source list \<Rightarrow> Source list" where
  "firstSeenWins xs = keepFirst {} xs"

text \<open>
  Concrete inputs for the examples: a run that is started, a run suspended at its first
  review, and a run that completes after one rewrite.
\<close>

definition example_topic :: string where
  "example_topic = ''solid-state batteries''"

definition example_query :: SearchQuery where
  "example_query = \<lparr>query = ''solid electrolyte conductivity'', rationale = ''materials''\<rparr>"

definition low_review :: ReviewResult where
  "low_review = \<lparr>review_score = 3, review_feedback = ''add depth'', approved = False\<rparr>"

definition good_review :: ReviewResult where
  "good_review = \<lparr>review_score = 5, review_feedback = ''fine'', approved = True\<rparr>"

definition odd_review :: ReviewResult where
  "odd_review = \<lparr>review_score = 2, review_feedback = ''thin'', approved = True\<rparr>"

definition example_compiled :: "Event list" where
  "example_compiled =
     [Start example_topic,
      Settle 0 (Queries (JsonOf [example_query, example_query])),
      Settle 0 (Queries (JsonOf [example_query])),
      Settle 0 (Grounded (Some ''# Report'') (Some example_chunks))]"

definition example_completed :: "Event list" where
  "example_completed =
     example_compiled @
     [Settle 0 (Review (JsonOf low_review)),
      Settle 0 (Grounded (Some ''# Report, second version'') None),
      Settle 0 (Review (JsonOf good_review))]"

definition example_report :: ResearchReport where
  "example_report =
     \<lparr>topic = example_topic, markdown = ''# Report'',
       sources = [\<lparr>title = ''A'', uri = ''https://a''\<rparr>],
       score = None, feedback = None, version = 1\<rparr>"

definition duplicate_sources :: "Source list" where
  "duplicate_sources =
     [\<lparr>title = ''First'', uri = ''https://a''\<rparr>, \<lparr>title = ''B'', uri = ''https://b''\<rparr>,
      \<lparr>title = ''Second'', uri = ''https://a''\<rparr>]"

definition example_approved :: "Event list" where
  "example_approved = example_compiled @ [Settle 0 (Review (JsonOf good_review))]"

definition followUp_chunks :: "GroundingChunk list" where
  "followUp_chunks =
     [GroundingChunk (Some (Web (Some ''https://a'') (Some ''A again''))),
      GroundingChunk (Some (Web (Some ''https://b'') (Some ''B'')))]"

definition startEntries :: "string \<Rightarrow> LogEntry list" where
  "startEntries tpc =
     [\<lparr>step = IDLE, message = ''Starting research on: '' @ dquote @ tpc @ dquote,
       details = NoDetails\<rparr>,
      \<lparr>step = BRAINSTORMING, message = ''Brainstorming search queries...'',
       details = NoDetails\<rparr>]"

text \<open>
  \<^verbatim>\<open>isRunning\<close> of the component: while it holds, the user interface offers Stop in
  place of Start.
\<close>

definition isRunning :: "Controller \<Rightarrow> bool" where
  "isRunning s = (state s \<noteq> IDLE \<and> state s \<noteq> COMPLETED \<and> state s \<noteq> ERROR)"

text \<open>
  A sequence of events the user interface allows: a follow-up is asked while the first
  run awaits its review and is answered; then a second run is started, before the review
  of the first run arrives.
\<close>

definition followUp_during_review :: "Event list" where
  "followUp_during_review =
     example_compiled @
     [FollowUp ''cost?'', Settle 1 (Grounded (Some ''High.'') (Some followUp_chunks))]"

text \<open>
  Two more runs: one suspended at the review of its second version, and one suspended at
  the review of its third version, with the retry budget used up.
\<close>

definition example_rewritten :: "Event list" where
  "example_rewritten =
     example_compiled @
     [Settle 0 (Review (JsonOf low_review)),
      Settle 0 (Grounded (Some ''# Report, second version'') None)]"

definition example_last_review :: "Event list" where
  "example_last_review =
     example_rewritten @
     [Settle 0 (Review (JsonOf low_review)),
      Settle 0 (Grounded (Some ''# Report, third version'') None)]"

section \<open>Evaluation\<close>

lemmas controller_defs =
  exec_def initial_def startResearch_def stopResearch_def new_AbortController_def
  handleFollowUp_def catchFollowUp_def afterAskFollowUp_def settle_def
  setState_def setReport_def addLog_def await_def handleError_def isAbort_def errorDetails_def
  afterBrainstorm_def afterReflect_def afterSearchAndCompile_def afterReview_def
  runSearchAndCompileLoop_def MAX_RETRIES_def Error_def Let_def

lemmas service_defs =
  brainstormQueries_def reflectAndRefineQueries_def reviewReport_def parseJson_def
  searchAndCompile_def askFollowUp_def groundedSources_def uniqueSources_def new_Map_def

lemmas string_defs =
  trim_def isWhiteSpace_def dquote_def newline_def decimal.simps digit_char_def
  String_of_error_def

lemmas number_defs =
  Number_toString_def Number_toString_pos_def toDouble_def ulp_def roundsTo_def
  bitLength.simps decimal.simps digit_char_def Let_def

lemmas example_defs =
  example_topic_def example_query_def low_review_def good_review_def odd_review_def
  example_compiled_def example_completed_def example_chunks_def example_report_def
  duplicate_sources_def example_approved_def followUp_chunks_def followUp_during_review_def
  example_rewritten_def example_last_review_def

lemmas segment_defs =
  settle_def handleError_def catchFollowUp_def afterAskFollowUp_def
  setState_def setReport_def addLog_def await_def
  afterBrainstorm_def afterReflect_def afterSearchAndCompile_def afterReview_def
  runSearchAndCompileLoop_def Let_def

section \<open>Numbers as the template literals print them\<close>

lemma Number_toString_small:
  "Number_toString 3 = ''3''" "Number_toString 5 = ''5''" "Number_toString (- 12) = ''-12''"
  by (simp_all add: number_defs)

lemma Number_toString_exponent: "Number_toString 1000000000000000000000 = ''1e+21''"
  by (simp add: number_defs)

lemma Number_toString_rounded: "Number_toString 1152921504606846976 = ''1152921504606847000''"
  by (simp add: number_defs)

section \<open>Facts about the service functions\<close>

lemma keys_Map_set:
  "map fst (Map_set m k v) = (if k \<in> fst ` set m then map fst m else map fst m @ [k])"
  by (induction m) (auto simp: rev_image_eqI)

lemma map_of_Map_set: "map_of (Map_set m k v) = (map_of m)(k \<mapsto> v)"
  by (induction m) (auto simp: fun_eq_iff)

lemma new_Map_snoc: "new_Map (es @ [(k, v)]) = Map_set (new_Map es) k v"
  by (simp add: new_Map_def)

lemma keys_new_Map: "map fst (new_Map es) = rev (remdups (rev (map fst es)))"
proof (induction es rule: rev_induct)
  case Nil
  show ?case by (simp add: new_Map_def)
next
  case (snoc e es)
  obtain k v where e: "e = (k, v)" by (cases e)
  have "fst ` set (new_Map es) = fst ` set es"
    using snoc by (metis list.set_map set_remdups set_rev)
  then show ?case using snoc
    by (auto simp: e new_Map_snoc keys_Map_set)
qed

lemma map_of_new_Map: "map_of (new_Map es) = map_of (rev es)"
proof (induction es rule: rev_induct)
  case Nil
  show ?case by (simp add: new_Map_def)
next
  case (snoc e es)
  obtain k v where e: "e = (k, v)" by (cases e)
  show ?case using snoc by (simp add: e new_Map_snoc map_of_Map_set)
qed

lemma distinct_keys_new_Map: "distinct (map fst (new_Map es))"
  by (simp add: keys_new_Map)

lemma new_Map_entry:
  assumes "(k, v) \<in> set (new_Map (map (\<lambda>s. (uri s, s)) xs))"
  shows "map_of (rev (map (\<lambda>s. (uri s, s)) xs)) k = Some v \<and> uri v = k \<and> v \<in> set xs"
proof -
  from assms have "map_of (new_Map (map (\<lambda>s. (uri s, s)) xs)) k = Some v"
    using distinct_keys_new_Map by (simp add: map_of_eq_Some_iff)
  then have m: "map_of (rev (map (\<lambda>s. (uri s, s)) xs)) k = Some v"
    by (simp add: map_of_new_Map)
  then have "(k, v) \<in> set (rev (map (\<lambda>s. (uri s, s)) xs))"
    by (rule map_of_SomeD)
  with m show ?thesis by auto
qed

lemma uris_uniqueSources: "map uri (uniqueSources xs) = rev (remdups (rev (map uri xs)))"
proof -
  have "map (uri \<circ> snd) (new_Map (map (\<lambda>s. (uri s, s)) xs))
      = map fst (new_Map (map (\<lambda>s. (uri s, s)) xs))"
    by (intro map_cong) (auto dest: new_Map_entry)
  then show ?thesis
    by (simp add: uniqueSources_def keys_new_Map comp_def)
qed

lemma distinct_uniqueSources: "distinct (map uri (uniqueSources xs))"
  by (simp add: uris_uniqueSources)

lemma map_of_rev_last:
  "map_of (rev (map (\<lambda>s. (uri s, s)) xs)) u = Some v \<longleftrightarrow>
     filter (\<lambda>x. uri x = u) xs \<noteq> [] \<and> v = last (filter (\<lambda>x. uri x = u) xs)"
  by (induction xs rule: rev_induct) auto

lemma uniqueSources_last:
  assumes "s \<in> set (uniqueSources xs)"
  shows "s \<in> set xs \<and> s = last (filter (\<lambda>x. uri x = uri s) xs)"
proof -
  from assms obtain k where "(k, s) \<in> set (new_Map (map (\<lambda>s. (uri s, s)) xs))"
    by (auto simp: uniqueSources_def)
  then have "map_of (rev (map (\<lambda>s. (uri s, s)) xs)) k = Some s" "uri s = k" "s \<in> set xs"
    by (auto dest: new_Map_entry)
  then show ?thesis by (simp add: map_of_rev_last)
qed

lemma extractSources_sound:
  "s \<in> set (extractSources cs) \<Longrightarrow>
     title s \<noteq> [] \<and> uri s \<noteq> [] \<and>
     GroundingChunk (Some (Web (Some (uri s)) (Some (title s)))) \<in> set cs"
  by (induction cs rule: extractSources.induct) (auto split: if_splits elim: truthy.elims)

lemma trim_empty_iff: "trim t = [] \<longleftrightarrow> (\<forall>c\<in>set t. isWhiteSpace c)"
proof
  assume "trim t = []"
  then have all: "\<forall>x\<in>set (dropWhile isWhiteSpace t). isWhiteSpace x"
    by (simp add: trim_def dropWhile_eq_Nil_conv)
  have "dropWhile isWhiteSpace t = []"
  proof (rule ccontr)
    assume ne: "dropWhile isWhiteSpace t \<noteq> []"
    then have "\<not> isWhiteSpace (hd (dropWhile isWhiteSpace t))" by (rule hd_dropWhile)
    moreover have "hd (dropWhile isWhiteSpace t) \<in> set (dropWhile isWhiteSpace t)"
      using ne by simp
    ultimately show False using all by blast
  qed
  then show "\<forall>c\<in>set t. isWhiteSpace c" by (simp add: dropWhile_eq_Nil_conv)
next
  assume "\<forall>c\<in>set t. isWhiteSpace c"
  then show "trim t = []" by (auto simp: trim_def dest: set_dropWhileD)
qed

lemma remdups_snoc: "remdups (ys @ [x]) = filter (\<lambda>u. u \<noteq> x) (remdups ys) @ [x]"
  by (induction ys) auto

lemma uris_keepFirst:
  "map uri (keepFirst seen xs) = filter (\<lambda>u. u \<notin> seen) (rev (remdups (rev (map uri xs))))"
proof (induction xs arbitrary: seen)
  case Nil
  show ?case by simp
next
  case (Cons x xs)
  have r: "rev (remdups (rev (map uri (x # xs))))
      = uri x # filter (\<lambda>u. u \<noteq> uri x) (rev (remdups (rev (map uri xs))))"
    by (simp add: remdups_snoc rev_filter)
  show ?case
  proof (cases "uri x \<in> seen")
    case True
    then have "filter (\<lambda>u. u \<noteq> uri x \<and> u \<notin> seen) (rev (remdups (rev (map uri xs))))
        = filter (\<lambda>u. u \<notin> seen) (rev (remdups (rev (map uri xs))))"
      by (intro filter_cong) auto
    with True show ?thesis by (simp add: r Cons.IH del: rev.simps list.map)
  next
    case False
    have "map uri (keepFirst seen (x # xs)) = uri x # map uri (keepFirst (insert (uri x) seen) xs)"
      using False by simp
    also have "\<dots> = uri x # filter (\<lambda>u. u \<notin> insert (uri x) seen)
                               (rev (remdups (rev (map uri xs))))"
      by (simp only: Cons.IH)
    also have "filter (\<lambda>u. u \<notin> insert (uri x) seen) (rev (remdups (rev (map uri xs))))
        = filter (\<lambda>u. u \<notin> seen)
            (filter (\<lambda>u. u \<noteq> uri x) (rev (remdups (rev (map uri xs)))))"
      by (simp only: filter_filter, intro filter_cong) auto
    also have "uri x # filter (\<lambda>u. u \<notin> seen)
            (filter (\<lambda>u. u \<noteq> uri x) (rev (remdups (rev (map uri xs)))))
        = filter (\<lambda>u. u \<notin> seen) (rev (remdups (rev (map uri (x # xs)))))"
      using False by (simp only: r filter.simps) simp
    finally show ?thesis .
  qed
qed

lemma uris_firstSeenWins: "map uri (firstSeenWins xs) = map uri (uniqueSources xs)"
  by (simp add: firstSeenWins_def uris_keepFirst uris_uniqueSources)

section \<open>Facts about single events\<close>

lemma settle_failure:
  assumes "pending s c = Some k" "mainPipeline k" "serviceOutcome k reply = Some (Inl e)"
    "\<not> isAbort e"
  shows "settle c reply s =
         s\<lparr>state := ERROR, logs := logs s @ [errorEntry e], pending := (pending s)(c := None)\<rparr>"
  using assms
  by (cases k; cases reply)
     (auto simp: settle_def handleError_def setState_def addLog_def errorEntry_def
        afterBrainstorm_def afterReflect_def afterSearchAndCompile_def afterReview_def
        split: sum.splits)

lemma settle_aborted:
  assumes "pending s c = Some k" "mainPipeline k" "serviceOutcome k reply = Some (Inr ())"
    "c \<in> aborted s"
  shows "settle c reply s =
         s\<lparr>logs := logs s @ [stoppedEntry], state := IDLE, pending := (pending s)(c := None)\<rparr>"
  using assms
  by (cases k; cases reply)
     (auto simp: settle_def handleError_def setState_def addLog_def stoppedEntry_def isAbort_def
        Error_def afterBrainstorm_def afterReflect_def afterSearchAndCompile_def afterReview_def
        split: sum.splits)

lemma settle_none: "pending s c = None \<Longrightarrow> settle c reply s = s"
  by (simp add: settle_def)

lemma settle_ignored:
  assumes "pending s c = Some k" "mainPipeline k" "serviceOutcome k reply = None"
  shows "settle c reply s = s"
  using assms by (cases k; cases reply) (simp_all add: settle_def)

lemma settle_thrown:
  assumes "pending s c = Some k" "mainPipeline k" "serviceOutcome k reply = Some (Inl e)"
  shows "settle c reply s = handleError e (s\<lparr>pending := (pending s)(c := None)\<rparr>)"
  using assms
  by (cases k; cases reply)
     (auto simp: settle_def afterBrainstorm_def afterReflect_def afterSearchAndCompile_def
        afterReview_def split: sum.splits)

lemma settle_brainstorm:
  assumes "pending s c = Some (AwaitBrainstorm tpc)" "c \<notin> aborted s"
  shows "settle c (Queries (JsonOf initialQueries)) s =
     s\<lparr>logs := logs s @
          [\<lparr>step = BRAINSTORMING,
            message = ''Generated '' @ decimal (length initialQueries) @ '' initial queries'',
            details = QueriesDetails initialQueries\<rparr>,
           \<lparr>step = REFLECTING, message = ''Reflecting and refining queries...'',
            details = NoDetails\<rparr>],
       state := REFLECTING,
       pending := (pending s)(c \<mapsto> AwaitReflect tpc initialQueries)\<rparr>"
  using assms by (simp add: segment_defs brainstormQueries_def parseJson_def)

lemma settle_reflect:
  assumes "pending s c = Some (AwaitReflect tpc initialQueries)" "c \<notin> aborted s"
  shows "settle c (Queries (JsonOf refinedQueries)) s =
     s\<lparr>queries := refinedQueries,
       logs := logs s @
          [\<lparr>step = REFLECTING,
            message = ''Selected top '' @ decimal (length refinedQueries) @ '' queries'',
            details = QueriesDetails refinedQueries\<rparr>,
           loopEntryLog (retryCount s) None],
       state := COMPILING,
       pending := (pending s)(c \<mapsto> AwaitSearchAndCompile tpc refinedQueries None None)\<rparr>"
  using assms by (simp add: segment_defs reflectAndRefineQueries_def parseJson_def loopEntryLog_def)

lemma settle_compile:
  assumes "pending s c = Some (AwaitSearchAndCompile tpc qs fb prev)" "c \<notin> aborted s"
    "truthy text"
  shows "settle c (Grounded text chunks) s =
     s\<lparr>logs := logs s @
          [\<lparr>step = COMPILING, message = ''Report compiled. Sources found:'',
            details = NumberDetails (length (groundedSources chunks))\<rparr>,
           \<lparr>step = REVIEWING, message = ''Sending report to reviewer agent...'',
            details = NoDetails\<rparr>],
       report := Some \<lparr>topic = tpc, markdown = the text, sources = groundedSources chunks,
                        score = None, feedback = None, version = retryCount s + 1\<rparr>,
       state := REVIEWING,
       pending := (pending s)(c \<mapsto> AwaitReview tpc qs (the text)
         \<lparr>topic = tpc, markdown = the text, sources = groundedSources chunks,
           score = None, feedback = None, version = retryCount s + 1\<rparr>)\<rparr>"
  using assms by (simp add: segment_defs searchAndCompile_def)

lemma settle_review_rewrite:
  assumes "pending s c = Some (AwaitReview tpc qs md tmp)" "c \<notin> aborted s"
    "review_score review < 4" "retryCount s < MAX_RETRIES"
  shows "settle c (Review (JsonOf review)) s =
     s\<lparr>logs := logs s @
          [reviewLog review,
           \<lparr>step = REVIEWING, message = ''Score too low (<4). Initiating rewrite loop.'',
            details = NoDetails\<rparr>,
           loopEntryLog (retryCount s + 1) (Some (review_feedback review))],
       report := Some (tmp\<lparr>score := Some (review_score review),
                             feedback := Some (review_feedback review)\<rparr>),
       retryCount := retryCount s + 1,
       state := (if review_feedback review \<noteq> [] then REWRITING else COMPILING),
       pending := (pending s)(c \<mapsto>
          AwaitSearchAndCompile tpc qs (Some (review_feedback review)) (Some md))\<rparr>"
  using assms by (simp add: segment_defs reviewReport_def parseJson_def loopEntryLog_def reviewLog_def)

lemma settle_review_complete:
  assumes "pending s c = Some (AwaitReview tpc qs md tmp)" "c \<notin> aborted s"
    "\<not> (review_score review < 4 \<and> retryCount s < MAX_RETRIES)"
  shows "settle c (Review (JsonOf review)) s =
     s\<lparr>logs := logs s @
          [reviewLog review,
           \<lparr>step = COMPLETED,
            message = (if review_score review < 4
                       then ''Max retries reached. Finalizing report despite low score.''
                       else ''Report approved! Research complete.''),
            details = NoDetails\<rparr>],
       report := Some (tmp\<lparr>score := Some (review_score review),
                             feedback := Some (review_feedback review)\<rparr>),
       state := COMPLETED,
       pending := (pending s)(c := None)\<rparr>"
  using assms by (auto simp: segment_defs reviewReport_def parseJson_def reviewLog_def)

lemma serviceOutcome_returns:
  assumes "mainPipeline k" "serviceOutcome k reply = Some (Inr ())"
  obtains (Brainstorm) tpc qs where "k = AwaitBrainstorm tpc" "reply = Queries (JsonOf qs)"
  | (Reflect) tpc qs0 qs where "k = AwaitReflect tpc qs0" "reply = Queries (JsonOf qs)"
  | (Compile) tpc qs fb prev body chunks where "k = AwaitSearchAndCompile tpc qs fb prev"
      "reply = Grounded body chunks" "truthy body"
  | (Review) tpc qs md tmp review where "k = AwaitReview tpc qs md tmp"
      "reply = Review (JsonOf review)"
  using assms
  by (cases k; cases reply)
     (auto simp: brainstormQueries_def reflectAndRefineQueries_def reviewReport_def parseJson_def
        searchAndCompile_def Let_def split: JsonText.splits if_splits)

lemma settle_followUp:
  assumes "pending s c = Some (AwaitFollowUp rep q)" "c \<notin> aborted s" "truthy text"
  shows "settle c (Grounded text chunks) s =
     s\<lparr>report := Some (rep\<lparr>markdown := markdown rep @ followUpSection q (the text),
          sources := sources rep @ filter (\<lambda>x. uri x \<notin> set (map uri (sources rep)))
                                     (groundedSources chunks)\<rparr>),
       logs := logs s @ [\<lparr>step = COMPLETED, message = ''Follow-up answer added to report.'',
          details = NewSourcesFound (length (filter (\<lambda>x. uri x \<notin> set (map uri (sources rep)))
                                     (groundedSources chunks)))\<rparr>],
       state := COMPLETED,
       pending := (pending s)(c := None)\<rparr>"
  using assms by (simp add: segment_defs askFollowUp_def followUpSection_def)

lemma settle_followUp_thrown:
  assumes "pending s c = Some (AwaitFollowUp rep q)"
    "reply = Rejected e \<or> (\<exists>text chunks. reply = Grounded text chunks \<and>
        askFollowUp (c \<in> aborted s) text chunks = Inl e)"
  shows "settle c reply s = catchFollowUp e (s\<lparr>pending := (pending s)(c := None)\<rparr>)"
  using assms by (auto simp: settle_def afterAskFollowUp_def)

lemma settle_cases [case_names Unchanged Thrown Brainstorm Reflect Compile Review FollowUp FollowUpThrown]:
  obtains
    (Unchanged) "settle c reply s = s"
  | (Thrown) k e where "pending s c = Some k" "mainPipeline k"
      "settle c reply s = handleError e (s\<lparr>pending := (pending s)(c := None)\<rparr>)"
  | (Brainstorm) tpc qs where "pending s c = Some (AwaitBrainstorm tpc)" "c \<notin> aborted s"
      "reply = Queries (JsonOf qs)"
  | (Reflect) tpc qs0 qs where "pending s c = Some (AwaitReflect tpc qs0)" "c \<notin> aborted s"
      "reply = Queries (JsonOf qs)"
  | (Compile) tpc qs fb prev body chunks where
      "pending s c = Some (AwaitSearchAndCompile tpc qs fb prev)" "c \<notin> aborted s"
      "reply = Grounded body chunks" "truthy body"
  | (Review) tpc qs md tmp review where "pending s c = Some (AwaitReview tpc qs md tmp)"
      "c \<notin> aborted s" "reply = Review (JsonOf review)"
  | (FollowUp) rep q body chunks where "pending s c = Some (AwaitFollowUp rep q)"
      "c \<notin> aborted s" "reply = Grounded body chunks" "truthy body"
  | (FollowUpThrown) rep q e where "pending s c = Some (AwaitFollowUp rep q)"
      "settle c reply s = catchFollowUp e (s\<lparr>pending := (pending s)(c := None)\<rparr>)"
proof (cases "pending s c")
  case None
  then show ?thesis using Unchanged by (simp add: settle_none)
next
  case (Some k)
  show ?thesis
  proof (cases "mainPipeline k")
    case True
    show ?thesis
    proof (cases "serviceOutcome k reply")
      case None
      with Some True show ?thesis using Unchanged by (simp add: settle_ignored)
    next
      case out: (Some out)
      show ?thesis
      proof (cases out)
        case (Inl e)
        with out Some True show ?thesis using Thrown by (simp add: settle_thrown)
      next
        case (Inr u)
        with out have out: "serviceOutcome k reply = Some (Inr ())" by simp
        show ?thesis
        proof (cases "c \<in> aborted s")
          case True
          have "handleError (Error ''Aborted'') (s\<lparr>pending := (pending s)(c := None)\<rparr>)
               = s\<lparr>logs := logs s @ [stoppedEntry], state := IDLE, pending := (pending s)(c := None)\<rparr>"
            by (simp add: handleError_def isAbort_def Error_def setState_def addLog_def stoppedEntry_def)
          then have "settle c reply s
               = handleError (Error ''Aborted'') (s\<lparr>pending := (pending s)(c := None)\<rparr>)"
            using settle_aborted [OF Some \<open>mainPipeline k\<close> out True] by simp
          with Some \<open>mainPipeline k\<close> show ?thesis by (rule Thrown)
        next
          case False
          from \<open>mainPipeline k\<close> out show ?thesis
            using False Some Brainstorm Reflect Compile Review
            by (cases rule: serviceOutcome_returns) simp_all
        qed
      qed
    qed
  next
    case False
    then obtain rep q where k: "k = AwaitFollowUp rep q" by (cases k) simp_all
    show ?thesis
    proof (cases reply)
      case (Rejected e)
      with Some k show ?thesis using FollowUpThrown by (simp add: settle_followUp_thrown)
    next
      case (Grounded body chunks)
      show ?thesis
      proof (cases "askFollowUp (c \<in> aborted s) body chunks")
        case (Inl e)
        with Some k Grounded show ?thesis using FollowUpThrown
          by (simp add: settle_followUp_thrown)
      next
        case (Inr res)
        then have "c \<notin> aborted s" "truthy body"
          by (auto simp: askFollowUp_def Let_def split: if_splits)
        with Some k Grounded show ?thesis using FollowUp by simp
      qed
    next
      case (Queries t)
      with Some k show ?thesis using Unchanged by (simp add: settle_def)
    next
      case (Review t)
      with Some k show ?thesis using Unchanged by (simp add: settle_def)
    qed
  qed
qed

lemma settle_frame:
  "aborted (settle c reply s) = aborted s \<and> created (settle c reply s) = created s \<and>
   abortControllerRef (settle c reply s) = abortControllerRef s \<and>
   (pending (settle c reply s) c' = Some k' \<longrightarrow> (\<exists>k. pending s c' = Some k))"
proof (cases "pending s c")
  case None
  then show ?thesis by (simp add: settle_def)
next
  case (Some k)
  then show ?thesis
    by (cases k; cases reply)
       (auto simp: segment_defs split: sum.splits if_splits prod.splits)
qed

lemma wellFormed_initial: "wellFormed initial"
  by (simp add: wellFormed_def initial_def)

lemma wellFormed_react: "wellFormed s \<Longrightarrow> wellFormed (react s ev)"
proof (cases ev)
  case (Start tpc)
  assume "wellFormed s"
  then show ?thesis unfolding Start
    by (auto simp: wellFormed_def startResearch_def stopResearch_def new_AbortController_def
          segment_defs less_Suc_eq split: option.splits if_splits)
next
  case Stop
  assume "wellFormed s"
  then show ?thesis unfolding Stop
    by (auto simp: wellFormed_def stopResearch_def split: option.splits)
next
  case (FollowUp q)
  assume "wellFormed s"
  then show ?thesis unfolding FollowUp
    by (auto simp: wellFormed_def handleFollowUp_def stopResearch_def new_AbortController_def
          segment_defs less_Suc_eq split: option.splits if_splits)
next
  case (Settle c reply)
  assume wf: "wellFormed s"
  have "\<And>c' k'. pending (settle c reply s) c' = Some k' \<Longrightarrow> \<exists>k. pending s c' = Some k"
    using settle_frame [of c reply s] by blast
  then show ?thesis unfolding Settle using wf settle_frame [of c reply s]
    by (simp add: wellFormed_def)
qed

lemma wellFormed_exec: "wellFormed s \<Longrightarrow> wellFormed (exec evs s)"
  unfolding exec_def by (induction evs arbitrary: s) (simp_all add: wellFormed_react)

lemma fresh_controller: "wellFormed s \<Longrightarrow> created s \<notin> aborted s \<and> pending s (created s) = None"
  by (auto simp: wellFormed_def)

lemma settle_ignores_approved:
  "settle c (Review (JsonOf (review\<lparr>approved := b\<rparr>))) s = settle c (Review (JsonOf review)) s"
proof (cases "pending s c")
  case None
  then show ?thesis by (simp add: settle_none)
next
  case (Some k)
  then show ?thesis
    by (cases k)
       (simp_all add: settle_def afterReview_def reviewReport_def parseJson_def Let_def)
qed

section \<open>Invariants of the reachable states\<close>

lemma handleError_fields:
  "retryCount (handleError e s) = retryCount s" "report (handleError e s) = report s"
  "pending (handleError e s) = pending s" "aborted (handleError e s) = aborted s"
  "state (handleError e s) \<noteq> COMPLETED" "queries (handleError e s) = queries s"
  "abortControllerRef (handleError e s) = abortControllerRef s"
  by (simp_all add: handleError_def setState_def addLog_def)

lemma catchFollowUp_fields:
  "retryCount (catchFollowUp e s) = retryCount s" "report (catchFollowUp e s) = report s"
  "pending (catchFollowUp e s) = pending s" "aborted (catchFollowUp e s) = aborted s"
  "queries (catchFollowUp e s) = queries s"
  "abortControllerRef (catchFollowUp e s) = abortControllerRef s"
  by (simp_all add: catchFollowUp_def handleError_def setState_def addLog_def)

lemma stale_reply_frame:
  assumes "pending s c = Some k" "mainPipeline k" "c \<in> aborted s"
  shows "report (settle c reply s) = report s \<and> queries (settle c reply s) = queries s \<and>
         retryCount (settle c reply s) = retryCount s \<and>
         abortControllerRef (settle c reply s) = abortControllerRef s \<and>
         (\<forall>c'. c' \<noteq> c \<longrightarrow> pending (settle c reply s) c' = pending s c')"
proof (cases c reply s rule: settle_cases)
  case Unchanged
  then show ?thesis by simp
next
  case (Thrown k e)
  then show ?thesis by (simp add: handleError_fields)
qed (use assms in simp_all)

lemma settle_review_cases [case_names Unchanged Thrown Rewrite Complete]:
  assumes "pending s c = Some (AwaitReview tpc qs md tmp)"
  obtains
    (Unchanged) "settle c reply s = s"
  | (Thrown) e where
      "settle c reply s = handleError e (s\<lparr>pending := (pending s)(c := None)\<rparr>)"
  | (Rewrite) review where "reply = Review (JsonOf review)" "c \<notin> aborted s"
      "review_score review < 4 \<and> retryCount s < MAX_RETRIES"
  | (Complete) review where "reply = Review (JsonOf review)" "c \<notin> aborted s"
      "\<not> (review_score review < 4 \<and> retryCount s < MAX_RETRIES)"
proof (cases c reply s rule: settle_cases)
  case (Review tpc' qs' md' tmp' review)
  then show ?thesis using Rewrite Complete
    by (cases "review_score review < 4 \<and> retryCount s < MAX_RETRIES") blast+
qed (use assms Unchanged Thrown in auto)

lemma awaitsReview_iff:
  "awaitsReview k \<longleftrightarrow> (\<exists>tpc qs md tmp. k = Some (AwaitReview tpc qs md tmp))"
  by (cases k rule: awaitsReview.cases) simp_all

lemma entersRewrite_iff:
  "entersRewrite s (Settle c reply) \<longleftrightarrow>
     (\<exists>tpc qs md tmp review. pending s c = Some (AwaitReview tpc qs md tmp) \<and>
        reply = Review (JsonOf review) \<and> c \<notin> aborted s \<and> review_score review < 4 \<and>
        retryCount s < MAX_RETRIES)"
proof
  assume "entersRewrite s (Settle c reply)"
  then obtain tpc qs md tmp where p: "pending s c = Some (AwaitReview tpc qs md tmp)"
    and after: "awaitsSearchAndCompile (pending (settle c reply s) c)"
    by (auto simp: entersRewrite_def awaitsReview_iff)
  from p show "\<exists>tpc qs md tmp review. pending s c = Some (AwaitReview tpc qs md tmp) \<and>
        reply = Review (JsonOf review) \<and> c \<notin> aborted s \<and> review_score review < 4 \<and>
        retryCount s < MAX_RETRIES"
  proof (cases rule: settle_review_cases [where reply = reply])
    case Unchanged
    with after p show ?thesis by simp
  next
    case (Thrown e)
    with after show ?thesis by (simp add: handleError_fields)
  next
    case (Rewrite review)
    with p show ?thesis by simp
  next
    case (Complete review)
    with after p show ?thesis by (simp add: settle_review_complete)
  qed
next
  assume "\<exists>tpc qs md tmp review. pending s c = Some (AwaitReview tpc qs md tmp) \<and>
        reply = Review (JsonOf review) \<and> c \<notin> aborted s \<and> review_score review < 4 \<and>
        retryCount s < MAX_RETRIES"
  then show "entersRewrite s (Settle c reply)"
    by (auto simp: entersRewrite_def settle_review_rewrite)
qed

lemma completesRun_iff:
  "completesRun s (Settle c reply) \<longleftrightarrow>
     (\<exists>tpc qs md tmp review. pending s c = Some (AwaitReview tpc qs md tmp) \<and>
        reply = Review (JsonOf review) \<and> c \<notin> aborted s \<and>
        \<not> (review_score review < 4 \<and> retryCount s < MAX_RETRIES))"
proof
  assume "completesRun s (Settle c reply)"
  then obtain tpc qs md tmp where p: "pending s c = Some (AwaitReview tpc qs md tmp)"
    and after: "pending (settle c reply s) c = None" "state (settle c reply s) = COMPLETED"
    by (auto simp: completesRun_def awaitsReview_iff)
  from p show "\<exists>tpc qs md tmp review. pending s c = Some (AwaitReview tpc qs md tmp) \<and>
        reply = Review (JsonOf review) \<and> c \<notin> aborted s \<and>
        \<not> (review_score review < 4 \<and> retryCount s < MAX_RETRIES)"
  proof (cases rule: settle_review_cases [where reply = reply])
    case Unchanged
    with after p show ?thesis by simp
  next
    case (Thrown e)
    with after show ?thesis by (simp add: handleError_fields)
  next
    case (Rewrite review)
    with after p show ?thesis by (simp add: settle_review_rewrite)
  next
    case (Complete review)
    with p show ?thesis by simp
  qed
next
  assume "\<exists>tpc qs md tmp review. pending s c = Some (AwaitReview tpc qs md tmp) \<and>
        reply = Review (JsonOf review) \<and> c \<notin> aborted s \<and>
        \<not> (review_score review < 4 \<and> retryCount s < MAX_RETRIES)"
  then show "completesRun s (Settle c reply)"
    by (auto simp: completesRun_def settle_review_complete)
qed

lemma retryCount_react:
  "retryCount (react s ev) =
     (if beginsRun ev then 0 else if entersRewrite s ev then Suc (retryCount s) else retryCount s)"
proof (cases ev)
  case (Start tpc)
  then show ?thesis
    by (simp add: startResearch_def stopResearch_def new_AbortController_def segment_defs
          entersRewrite_def split: option.splits)
next
  case Stop
  then show ?thesis by (simp add: stopResearch_def entersRewrite_def split: option.splits)
next
  case (FollowUp q)
  then show ?thesis
    by (simp add: handleFollowUp_def stopResearch_def new_AbortController_def segment_defs
          entersRewrite_def split: option.splits)
next
  case (Settle c reply)
  show ?thesis
  proof (cases "pending s c")
    case None
    then show ?thesis unfolding Settle by (simp add: settle_none entersRewrite_iff)
  next
    case (Some k)
    show ?thesis
    proof (cases "mainPipeline k")
      case False
      then obtain rep q where k: "k = AwaitFollowUp rep q" by (cases k) simp_all
      show ?thesis unfolding Settle using Some
        by (cases reply) (simp_all add: k entersRewrite_iff segment_defs split: sum.splits prod.splits)
    next
      case True
      show ?thesis
      proof (cases "serviceOutcome k reply")
        case None
        then show ?thesis unfolding Settle using Some True
          by (auto simp: settle_ignored entersRewrite_iff reviewReport_def parseJson_def)
      next
        case (Some out)
        show ?thesis
        proof (cases out)
          case (Inl e)
          with Some \<open>pending s c = Some k\<close> True show ?thesis unfolding Settle
            by (auto simp: settle_thrown handleError_fields entersRewrite_iff
                  reviewReport_def parseJson_def)
        next
          case (Inr u)
          with Some have out: "serviceOutcome k reply = Some (Inr ())" by simp
          show ?thesis
          proof (cases "c \<in> aborted s")
            case True
            with out \<open>pending s c = Some k\<close> \<open>mainPipeline k\<close> show ?thesis unfolding Settle
              by (simp add: settle_aborted entersRewrite_iff)
          next
            case False
            from \<open>mainPipeline k\<close> out show ?thesis
            proof (cases rule: serviceOutcome_returns)
              case (Brainstorm tpc qs)
              with False \<open>pending s c = Some k\<close> show ?thesis unfolding Settle
                by (simp add: settle_brainstorm entersRewrite_iff)
            next
              case (Reflect tpc qs0 qs)
              with False \<open>pending s c = Some k\<close> show ?thesis unfolding Settle
                by (simp add: settle_reflect entersRewrite_iff)
            next
              case (Compile tpc qs fb prev body chunks)
              with False \<open>pending s c = Some k\<close> show ?thesis unfolding Settle
                by (simp add: settle_compile entersRewrite_iff)
            next
              case (Review tpc qs md tmp review)
              with False \<open>pending s c = Some k\<close> show ?thesis unfolding Settle
                by (cases "review_score review < 4 \<and> retryCount s < MAX_RETRIES")
                   (simp_all add: settle_review_rewrite settle_review_complete entersRewrite_iff)
            qed
          qed
        qed
      qed
    qed
  qed
qed

lemma retryCount_exec: "retryCount (exec evs s) = countRewrites s (retryCount s) evs"
  unfolding exec_def by (induction evs arbitrary: s) (simp_all add: retryCount_react)


lemma loopInvariant_initial: "loopInvariant initial"
  by (simp add: loopInvariant_def initial_def)

lemma loopInvariant_react:
  assumes "wellFormed s" "loopInvariant s"
  shows "loopInvariant (react s ev)"
proof (cases ev)
  case (Start tpc)
  then show ?thesis using assms
    by (auto simp: loopInvariant_def wellFormed_def startResearch_def stopResearch_def
          new_AbortController_def segment_defs split: option.splits if_splits)
next
  case Stop
  then show ?thesis using assms
    by (auto simp: loopInvariant_def stopResearch_def split: option.splits)
next
  case (FollowUp q)
  then show ?thesis using assms
    by (auto simp: loopInvariant_def wellFormed_def handleFollowUp_def stopResearch_def
          new_AbortController_def segment_defs split: option.splits if_splits)
next
  case (Settle c reply)
  have uniq: "c' = c"
    if "pending s c' = Some k'" "c' \<notin> aborted s" "pending s c = Some k" "c \<notin> aborted s"
    for c' k' k
    using that assms(1) unfolding wellFormed_def by (metis option.inject)
  have "loopInvariant (settle c reply s)"
  proof (cases c reply s rule: settle_cases)
    case Unchanged
    with assms show ?thesis by simp
  next
    case (Thrown k e)
    with assms(2) show ?thesis by (auto simp: loopInvariant_def handleError_fields)
  next
    case (Brainstorm tpc qs)
    with assms(2) show ?thesis by (auto simp: loopInvariant_def settle_brainstorm)
  next
    case (Reflect tpc qs0 qs)
    with assms(2) show ?thesis by (auto simp: loopInvariant_def settle_reflect)
  next
    case (Compile tpc qs fb prev body chunks)
    with assms(2) show ?thesis by (auto simp: loopInvariant_def settle_compile dest: uniq)
  next
    case (Review tpc qs md tmp review)
    show ?thesis
    proof (cases "review_score review < 4 \<and> retryCount s < MAX_RETRIES")
      case True
      with Review assms(2) show ?thesis
        by (auto simp: loopInvariant_def settle_review_rewrite dest: uniq)
    next
      case False
      with Review assms(2) show ?thesis
        by (auto simp: loopInvariant_def settle_review_complete)
    qed
  next
    case (FollowUp rep q body chunks)
    with assms(2) show ?thesis by (auto simp: loopInvariant_def settle_followUp)
  next
    case (FollowUpThrown rep q e)
    with assms(2) show ?thesis by (auto simp: loopInvariant_def catchFollowUp_fields)
  qed
  then show ?thesis by (simp add: Settle)
qed

lemma loopInvariant_exec:
  assumes "wellFormed s" "loopInvariant s"
  shows "loopInvariant (exec evs s)"
  using assms unfolding exec_def
  by (induction evs arbitrary: s) (simp_all add: loopInvariant_react wellFormed_react)

lemma distinct_merge:
  assumes "distinct (map uri xs)"
  shows "distinct (map uri (xs @ filter (\<lambda>x. uri x \<notin> set (map uri xs)) (groundedSources chunks)))"
  using assms
  by (auto simp: groundedSources_def distinct_map_filter distinct_uniqueSources)
     (metis image_eqI)

lemma sourcesInvariant_initial: "sourcesInvariant initial"
  by (simp add: sourcesInvariant_def initial_def)

lemma sourcesInvariant_react:
  assumes "sourcesInvariant s"
  shows "sourcesInvariant (react s ev)"
proof (cases ev)
  case (Start tpc)
  then show ?thesis using assms
    by (auto simp: sourcesInvariant_def startResearch_def stopResearch_def
          new_AbortController_def segment_defs split: option.splits if_splits)
next
  case Stop
  then show ?thesis using assms
    by (auto simp: sourcesInvariant_def stopResearch_def split: option.splits)
next
  case (FollowUp q)
  then show ?thesis using assms
    by (auto simp: sourcesInvariant_def handleFollowUp_def stopResearch_def
          new_AbortController_def segment_defs split: option.splits if_splits)
next
  case (Settle c reply)
  have "sourcesInvariant (settle c reply s)"
  proof (cases c reply s rule: settle_cases)
    case Unchanged
    with assms show ?thesis by simp
  next
    case (Thrown k e)
    with assms show ?thesis by (auto simp: sourcesInvariant_def handleError_fields)
  next
    case (Brainstorm tpc qs)
    with assms show ?thesis by (auto simp: sourcesInvariant_def settle_brainstorm)
  next
    case (Reflect tpc qs0 qs)
    with assms show ?thesis by (auto simp: sourcesInvariant_def settle_reflect)
  next
    case (Compile tpc qs fb prev body chunks)
    with assms show ?thesis
      by (auto simp: sourcesInvariant_def settle_compile distinctUris_def groundedSources_def
            distinct_uniqueSources)
  next
    case (Review tpc qs md tmp review)
    show ?thesis
    proof (cases "review_score review < 4 \<and> retryCount s < MAX_RETRIES")
      case True
      with Review assms show ?thesis
        by (auto simp: sourcesInvariant_def settle_review_rewrite distinctUris_def)
    next
      case False
      with Review assms show ?thesis
        by (auto simp: sourcesInvariant_def settle_review_complete distinctUris_def)
    qed
  next
    case (FollowUp rep q body chunks)
    with assms have "distinct (map uri (sources rep))"
      unfolding sourcesInvariant_def distinctUris_def by blast
    from distinct_merge [OF this] FollowUp assms show ?thesis
      by (auto simp: sourcesInvariant_def settle_followUp distinctUris_def)
  next
    case (FollowUpThrown rep q e)
    with assms show ?thesis by (auto simp: sourcesInvariant_def catchFollowUp_fields)
  qed
  then show ?thesis by (simp add: Settle)
qed

lemma sourcesInvariant_exec: "sourcesInvariant s \<Longrightarrow> sourcesInvariant (exec evs s)"
  unfolding exec_def by (induction evs arbitrary: s) (simp_all add: sourcesInvariant_react)

lemma extractSources_filter: "extractSources (filter complete cs) = extractSources cs"
  by (induction cs rule: extractSources.induct) (auto simp: complete_def)

lemma groundedSources_sound:
  assumes "s \<in> set (groundedSources chunks)"
  shows "title s \<noteq> [] \<and> uri s \<noteq> [] \<and>
    (\<exists>cs. chunks = Some cs \<and> GroundingChunk (Some (Web (Some (uri s)) (Some (title s)))) \<in> set cs)"
proof (cases chunks)
  case None
  with assms show ?thesis by (simp add: groundedSources_def uniqueSources_def new_Map_def)
next
  case (Some cs)
  with assms have "s \<in> set (extractSources cs)"
    by (auto simp: groundedSources_def dest: uniqueSources_last)
  with Some show ?thesis by (auto dest: extractSources_sound)
qed

lemma example_chunks_compiled:
  "searchAndCompile (Some ''report'') (Some example_chunks)
     = Inr (''report'', [\<lparr>title = ''A'', uri = ''https://a''\<rparr>])"
  by (simp add: service_defs example_chunks_def)

lemma start_state:
  assumes "wellFormed s" "trim tpc \<noteq> []"
  shows "startResearch tpc s =
     s\<lparr>aborted := aborted (stopResearch s),
       abortControllerRef := Some (created s), created := Suc (created s),
       state := BRAINSTORMING, logs := startEntries tpc, report := None, queries := [],
       retryCount := 0, pending := (pending s)(created s \<mapsto> AwaitBrainstorm tpc)\<rparr>"
proof -
  have "created s \<notin> aborted (stopResearch s)" using assms(1)
    by (auto simp: stopResearch_def wellFormed_def split: option.splits)
  then show ?thesis using assms(2)
    by (simp add: startResearch_def new_AbortController_def segment_defs startEntries_def)
       (simp add: stopResearch_def split: option.splits)
qed

lemma followUp_state:
  assumes "wellFormed s" "report s = Some rep"
  shows "handleFollowUp q s =
     s\<lparr>aborted := aborted (stopResearch s),
       abortControllerRef := Some (created s), created := Suc (created s),
       state := SEARCHING,
       logs := logs s @ [\<lparr>step = SEARCHING,
          message = ''Processing follow-up question: '' @ dquote @ q @ dquote,
          details = NoDetails\<rparr>],
       pending := (pending s)(created s \<mapsto> AwaitFollowUp rep q)\<rparr>"
proof -
  have "created s \<notin> aborted (stopResearch s)" using assms(1)
    by (auto simp: stopResearch_def wellFormed_def split: option.splits)
  then show ?thesis using assms(2)
    by (simp add: handleFollowUp_def new_AbortController_def segment_defs)
       (simp add: stopResearch_def split: option.splits)
qed

lemma exec_Cons: "exec (ev # evs) s = exec evs (react s ev)"
  by (simp add: exec_def)

lemma exec_Nil: "exec [] s = s"
  by (simp add: exec_def)

lemma exec_append: "exec (evs @ evs') s = exec evs' (exec evs s)"
  by (simp add: exec_def)

section \<open>The example runs\<close>

lemma example_compiled_state:
  "state (exec example_compiled initial) = REVIEWING"
  "report (exec example_compiled initial) = Some example_report"
  "retryCount (exec example_compiled initial) = 0"
  "aborted (exec example_compiled initial) = {}"
  "pending (exec example_compiled initial) 0
     = Some (AwaitReview example_topic [example_query] ''# Report'' example_report)"
  by (simp_all add: controller_defs service_defs string_defs example_defs)

lemma example_completed_state:
  "state (exec example_completed initial) = COMPLETED"
  "retryCount (exec example_completed initial) = 1"
  "report (exec example_completed initial) =
     Some \<lparr>topic = example_topic, markdown = ''# Report, second version'', sources = [],
            score = Some 5, feedback = Some ''fine'', version = 2\<rparr>"
  by (simp_all add: controller_defs service_defs string_defs example_defs)

lemma example_rewrites: "rewriteIterations example_completed = 1"
  by (simp add: rewriteIterations_def entersRewrite_def controller_defs service_defs
        string_defs example_defs)

lemma reachable_invariants:
  "wellFormed (exec evs initial)" "sourcesInvariant (exec evs initial)"
  "loopInvariant (exec evs initial)"
  by (simp_all add: wellFormed_exec wellFormed_initial sourcesInvariant_exec
        sourcesInvariant_initial loopInvariant_exec loopInvariant_initial)

lemma no_text_error: "\<not> isAbort (Error ''No response from Gemini'')"
  by (simp add: isAbort_def Error_def)

lemma example_compiled_ref: "abortControllerRef (exec example_compiled initial) = Some 0"
  by (simp add: controller_defs service_defs string_defs example_defs)

lemma example_approved_state:
  "report (exec example_approved initial) =
     Some (example_report\<lparr>score := Some 5, feedback := Some ''fine''\<rparr>)"
  "created (exec example_approved initial) = 1"
  "state (exec example_approved initial) = COMPLETED"
  by (simp_all add: controller_defs service_defs string_defs example_defs)

lemma followUp_chunks_sources:
  "groundedSources (Some followUp_chunks) =
     [\<lparr>title = ''A again'', uri = ''https://a''\<rparr>, \<lparr>title = ''B'', uri = ''https://b''\<rparr>]"
  by (simp add: service_defs followUp_chunks_def)

lemma duplicate_sources_unique:
  "uniqueSources duplicate_sources =
     [\<lparr>title = ''Second'', uri = ''https://a''\<rparr>, \<lparr>title = ''B'', uri = ''https://b''\<rparr>]"
  by (simp add: service_defs duplicate_sources_def)

lemma example_rewritten_state:
  "retryCount (exec example_rewritten initial) = 1"
  "aborted (exec example_rewritten initial) = {}"
  "pending (exec example_rewritten initial) 0
     = Some (AwaitReview example_topic [example_query] ''# Report, second version''
         \<lparr>topic = example_topic, markdown = ''# Report, second version'', sources = [],
           score = None, feedback = None, version = 2\<rparr>)"
  "example_rewritten @ [Settle 0 (Review (JsonOf good_review))] = example_completed"
  by (simp_all add: controller_defs service_defs string_defs example_defs)

lemma example_last_review_state:
  "retryCount (exec example_last_review initial) = 2"
  "aborted (exec example_last_review initial) = {}"
  "pending (exec example_last_review initial) 0
     = Some (AwaitReview example_topic [example_query] ''# Report, third version''
         \<lparr>topic = example_topic, markdown = ''# Report, third version'', sources = [],
           score = None, feedback = None, version = 3\<rparr>)"
  by (simp_all add: controller_defs service_defs string_defs example_defs)

lemma completesRun_Settle:
  assumes "completesRun s ev"
  obtains c tpc qs md tmp review where "ev = Settle c (Review (JsonOf review))"
    "pending s c = Some (AwaitReview tpc qs md tmp)" "c \<notin> aborted s"
    "\<not> (review_score review < 4 \<and> retryCount s < MAX_RETRIES)"
proof (cases ev)
  case (Settle c reply)
  with assms that show ?thesis by (auto simp: completesRun_iff)
qed (use assms in \<open>simp_all add: completesRun_def\<close>)

lemma errorDetails_eq:
  "errorDetails e = (if error_message e = [] then error_name e else error_message e)"
  by (simp add: errorDetails_def String_of_error_def)

lemma noText_outcome:
  assumes "serviceOutcome k reply \<noteq> None" "noText reply"
  shows "serviceOutcome k reply = Some (Inl (Error ''No response from Gemini''))"
  using assms
  by (cases k; cases reply)
     (auto simp: brainstormQueries_def reflectAndRefineQueries_def reviewReport_def
        searchAndCompile_def parseJson_def Let_def)

lemma stop_then_reply_ends_idle:
  assumes "pending s c = Some k" "mainPipeline k" "abortControllerRef s = Some c"
    "serviceOutcome k reply = Some (Inr ())"
  shows "exec [Stop, Settle c reply] s =
     s\<lparr>logs := logs s @ [stoppedEntry], state := IDLE, abortControllerRef := None,
       aborted := insert c (aborted s), pending := (pending s)(c := None)\<rparr>"
proof -
  let ?s = "stopResearch s"
  have s: "?s = s\<lparr>abortControllerRef := None, aborted := insert c (aborted s)\<rparr>"
    using assms by (simp add: stopResearch_def)
  then have "pending ?s c = Some k" "c \<in> aborted ?s" using assms by simp_all
  from settle_aborted [OF this(1) assms(2) assms(4) this(2)]
  show ?thesis by (simp add: exec_def s)
qed

section \<open>The claims\<close>

text \<open>
  C10. Whatever response the compile call or the follow-up call gets, every source it
  returns has a non-empty title and a non-empty uri and comes from a grounding chunk
  whose web entry has exactly that uri and title; the chunks with a missing or empty uri
  or title, or with no web entry, are dropped without an error: the returned sources are
  those of the response with these chunks removed.
\<close>

theorem sources_have_title_and_uri:
  assumes "searchAndCompile text chunks = Inr (md, srcs)
           \<or> askFollowUp signal_aborted text chunks = Inr (md, srcs)"
  shows "(\<forall>s\<in>set srcs. title s \<noteq> [] \<and> uri s \<noteq> [] \<and>
            (\<exists>cs. chunks = Some cs \<and>
               GroundingChunk (Some (Web (Some (uri s)) (Some (title s)))) \<in> set cs)) \<and>
         srcs = groundedSources (map_option (filter complete) chunks)"
proof -
  from assms have srcs: "srcs = groundedSources chunks"
    by (auto simp: searchAndCompile_def askFollowUp_def Let_def split: if_splits)
  have "groundedSources (map_option (filter complete) chunks) = groundedSources chunks"
    by (cases chunks) (simp_all add: groundedSources_def extractSources_filter)
  with srcs show ?thesis by (auto dest: groundedSources_sound)
qed

theorem sources_have_title_and_uri_witness:
  "searchAndCompile (Some ''report'') (Some example_chunks)
     = Inr (''report'', [\<lparr>title = ''A'', uri = ''https://a''\<rparr>])
   \<and> title \<lparr>title = ''A'', uri = ''https://a''\<rparr> \<noteq> []
   \<and> uri \<lparr>title = ''A'', uri = ''https://a''\<rparr> \<noteq> []
   \<and> [\<lparr>title = ''A'', uri = ''https://a''\<rparr>]
       = groundedSources (Some (filter complete example_chunks))"
  using sources_have_title_and_uri [of "Some ''report''" "Some example_chunks" "''report''"
      "[\<lparr>title = ''A'', uri = ''https://a''\<rparr>]" False]
    example_chunks_compiled
  by simp

text \<open>
  C9. In every state of the controller, \<^verbatim>\<open>startResearch\<close> with a topic that is empty or
  all white space changes nothing: phase, log, report, queries, retry counter, the
  current abort controller, the aborted signals and the suspended runs stay as they are.
\<close>

theorem start_blank_topic_is_noop:
  "\<forall>c\<in>set tpc. isWhiteSpace c \<Longrightarrow> react s (Start tpc) = s"
  by (simp add: startResearch_def trim_empty_iff)

theorem start_blank_topic_is_noop_witness:
  "react (exec [Start ''solid-state batteries''] initial) (Start [CHR '' '', CHR 0x09, CHR 0xA0])
     = exec [Start ''solid-state batteries''] initial"
  by (rule start_blank_topic_is_noop) (simp add: isWhiteSpace_def)

text \<open>
  C1. In every state the component can reach, by any sequence of starts, stops,
  follow-ups and replies: when the review of a run that is not cancelled arrives, then if
  the score is below 4 and the retry counter is below \<open>MAX_RETRIES\<close> the counter goes up
  by one and the run is suspended at another \<^verbatim>\<open>searchAndCompile\<close> call that carries the
  feedback and the markdown just reviewed; otherwise the phase becomes \<open>COMPLETED\<close>, the
  counter stays and the run has ended. And whenever a run completes, the report has a
  score, and the score is at least 4 or the counter equals \<open>MAX_RETRIES\<close>. (A follow-up
  sets the phase to \<open>COMPLETED\<close> as well; that is the end of the follow-up, not a run of
  the loop reaching it.)
\<close>

theorem review_decides_rewrite_or_completion:
  assumes "s = exec evs initial"
  shows "(pending s c = Some (AwaitReview tpc qs md tmp) \<and> c \<notin> aborted s \<longrightarrow>
            (review_score review < 4 \<and> retryCount s < MAX_RETRIES \<longrightarrow>
               retryCount (react s (Settle c (Review (JsonOf review)))) = retryCount s + 1 \<and>
               pending (react s (Settle c (Review (JsonOf review)))) c =
                 Some (AwaitSearchAndCompile tpc qs (Some (review_feedback review)) (Some md))) \<and>
            (\<not> (review_score review < 4 \<and> retryCount s < MAX_RETRIES) \<longrightarrow>
               state (react s (Settle c (Review (JsonOf review)))) = COMPLETED \<and>
               retryCount (react s (Settle c (Review (JsonOf review)))) = retryCount s \<and>
               pending (react s (Settle c (Review (JsonOf review)))) c = None)) \<and>
         (completesRun s ev \<longrightarrow>
            (\<exists>r sc. report (react s ev) = Some r \<and> score r = Some sc \<and>
               (4 \<le> sc \<or> retryCount (react s ev) = MAX_RETRIES)))"
proof (intro conjI impI)
  assume "completesRun s ev"
  then obtain c tpc qs md tmp review where ev: "ev = Settle c (Review (JsonOf review))"
    and p: "pending s c = Some (AwaitReview tpc qs md tmp)" "c \<notin> aborted s"
    and d: "\<not> (review_score review < 4 \<and> retryCount s < MAX_RETRIES)"
    by (rule completesRun_Settle)
  have "retryCount s \<le> MAX_RETRIES"
    using assms reachable_invariants(3) [of evs] by (simp add: loopInvariant_def)
  with d have "4 \<le> review_score review \<or> retryCount s = MAX_RETRIES" by auto
  then show "\<exists>r sc. report (react s ev) = Some r \<and> score r = Some sc \<and>
               (4 \<le> sc \<or> retryCount (react s ev) = MAX_RETRIES)"
    by (simp add: ev settle_review_complete [OF p d])
qed (simp_all add: settle_review_rewrite settle_review_complete)

theorem review_decides_rewrite_or_completion_witness:
  "retryCount (react (exec example_compiled initial) (Settle 0 (Review (JsonOf low_review)))) = 1 \<and>
   pending (react (exec example_compiled initial) (Settle 0 (Review (JsonOf low_review)))) 0 =
     Some (AwaitSearchAndCompile example_topic [example_query] (Some ''add depth'') (Some ''# Report'')) \<and>
   state (react (exec example_compiled initial) (Settle 0 (Review (JsonOf good_review)))) = COMPLETED \<and>
   completesRun (exec example_last_review initial) (Settle 0 (Review (JsonOf low_review))) \<and>
   (\<exists>r sc. report (react (exec example_last_review initial) (Settle 0 (Review (JsonOf low_review))))
              = Some r \<and> score r = Some sc \<and>
      (4 \<le> sc \<or> retryCount (react (exec example_last_review initial)
                                (Settle 0 (Review (JsonOf low_review)))) = MAX_RETRIES))"
proof -
  have p: "pending (exec example_compiled initial) 0
      = Some (AwaitReview example_topic [example_query] ''# Report'' example_report)"
    "0 \<notin> aborted (exec example_compiled initial)"
    "retryCount (exec example_compiled initial) = 0"
    by (simp_all add: example_compiled_state)
  note a = review_decides_rewrite_or_completion [OF refl, of example_compiled 0 example_topic
      "[example_query]" "''# Report''" example_report low_review, THEN conjunct1]
  note b = review_decides_rewrite_or_completion [OF refl, of example_compiled 0 example_topic
      "[example_query]" "''# Report''" example_report good_review, THEN conjunct1]
  note c = review_decides_rewrite_or_completion [OF refl, of example_last_review _ _ _ _ _ _
      "Settle 0 (Review (JsonOf low_review))", THEN conjunct2]
  have lt: "review_score low_review < 4 \<and> retryCount (exec example_compiled initial) < MAX_RETRIES"
    by (simp add: p(3) low_review_def MAX_RETRIES_def)
  from a p(1,2) lt
  have "retryCount (react (exec example_compiled initial) (Settle 0 (Review (JsonOf low_review))))
          = retryCount (exec example_compiled initial) + 1 \<and>
        pending (react (exec example_compiled initial) (Settle 0 (Review (JsonOf low_review)))) 0 =
          Some (AwaitSearchAndCompile example_topic [example_query]
                  (Some (review_feedback low_review)) (Some ''# Report''))"
    by blast
  then have 1: "retryCount (react (exec example_compiled initial) (Settle 0 (Review (JsonOf low_review)))) = 1"
    "pending (react (exec example_compiled initial) (Settle 0 (Review (JsonOf low_review)))) 0 =
     Some (AwaitSearchAndCompile example_topic [example_query] (Some ''add depth'') (Some ''# Report''))"
    by (simp_all add: p(3) low_review_def)
  have ge: "\<not> (review_score good_review < 4 \<and> retryCount (exec example_compiled initial) < MAX_RETRIES)"
    by (simp add: good_review_def)
  from b p(1,2) ge
  have 2: "state (react (exec example_compiled initial) (Settle 0 (Review (JsonOf good_review)))) = COMPLETED"
    by blast
  have 3: "completesRun (exec example_last_review initial) (Settle 0 (Review (JsonOf low_review)))"
    by (simp add: completesRun_iff example_last_review_state MAX_RETRIES_def)
  from c 3
  have 4: "\<exists>r sc. report (react (exec example_last_review initial) (Settle 0 (Review (JsonOf low_review))))
              = Some r \<and> score r = Some sc \<and>
      (4 \<le> sc \<or> retryCount (react (exec example_last_review initial)
                                (Settle 0 (Review (JsonOf low_review)))) = MAX_RETRIES)"
    by blast
  from 1 2 3 4 show ?thesis by blast
qed

text \<open>
  C2. In every state the component can reach, by any sequence of starts, stops,
  follow-ups and replies: a compile pass of a run that is not cancelled sets the version
  of the report to the retry counter plus one; the retry counter is the number of rewrite
  iterations the current run has entered, and that number is at most \<open>MAX_RETRIES\<close>; and
  whenever a run completes, the version of the report is one plus the number of rewrite
  iterations performed.
\<close>

theorem version_counts_rewrites:
  assumes "s = exec evs initial"
  shows "(pending s c = Some (AwaitSearchAndCompile tpc qs fb prev) \<and> c \<notin> aborted s \<and>
            truthy body \<longrightarrow>
            (\<exists>r. report (react s (Settle c (Grounded body chunks))) = Some r \<and>
                 version r = retryCount s + 1)) \<and>
         retryCount s = rewriteIterations evs \<and>
         rewriteIterations evs \<le> MAX_RETRIES \<and>
         (completesRun s ev \<longrightarrow>
            (\<exists>r. report (react s ev) = Some r \<and>
                 version r = 1 + rewriteIterations (evs @ [ev])))"
proof -
  have r: "retryCount (exec es initial) = rewriteIterations es" for es
    using retryCount_exec [of es initial] by (simp add: rewriteIterations_def initial_def)
  have inv: "loopInvariant s" using assms by (simp add: reachable_invariants)
  then have le: "rewriteIterations evs \<le> MAX_RETRIES"
    using r [of evs] assms by (simp add: loopInvariant_def)
  have c: "\<exists>r. report (react s ev) = Some r \<and> version r = 1 + rewriteIterations (evs @ [ev])"
    if "completesRun s ev"
  proof -
    from that obtain c tpc qs md tmp review where ev: "ev = Settle c (Review (JsonOf review))"
      and p: "pending s c = Some (AwaitReview tpc qs md tmp)" "c \<notin> aborted s"
      and d: "\<not> (review_score review < 4 \<and> retryCount s < MAX_RETRIES)"
      by (rule completesRun_Settle)
    have v: "version tmp = retryCount s + 1" using inv p by (auto simp: loopInvariant_def)
    have "exec (evs @ [ev]) initial = react s ev" using assms by (simp add: exec_def)
    then have "rewriteIterations (evs @ [ev]) = retryCount (react s ev)"
      using r [of "evs @ [ev]"] by simp
    also have "\<dots> = retryCount s" by (simp add: ev settle_review_complete [OF p d])
    finally show ?thesis using v by (simp add: ev settle_review_complete [OF p d])
  qed
  show ?thesis using r [of evs] le c assms by (simp add: settle_compile)
qed

theorem version_counts_rewrites_witness:
  "completesRun (exec example_rewritten initial) (Settle 0 (Review (JsonOf good_review))) \<and>
   rewriteIterations example_completed = 1 \<and>
   retryCount (exec example_completed initial) = 1 \<and>
   (\<exists>r. report (exec example_completed initial) = Some r \<and> version r = 2)"
proof -
  note c = version_counts_rewrites [OF refl, of example_rewritten _ _ _ _ _ _ _
      "Settle 0 (Review (JsonOf good_review))", THEN conjunct2, THEN conjunct2, THEN conjunct2]
  have 1: "completesRun (exec example_rewritten initial) (Settle 0 (Review (JsonOf good_review)))"
    by (simp add: completesRun_iff example_rewritten_state good_review_def)
  have e: "react (exec example_rewritten initial) (Settle 0 (Review (JsonOf good_review)))
      = exec example_completed initial"
    unfolding example_rewritten_state(4) [symmetric] by (simp add: exec_def)
  from c 1
  have "\<exists>r. report (react (exec example_rewritten initial) (Settle 0 (Review (JsonOf good_review))))
            = Some r \<and>
          version r = 1 + rewriteIterations (example_rewritten @ [Settle 0 (Review (JsonOf good_review))])"
    by blast
  then have "\<exists>r. report (exec example_completed initial) = Some r \<and> version r = 2"
    by (simp only: e example_rewritten_state(4) example_rewrites) (simp add: numeral_2_eq_2)
  with 1 show ?thesis using example_rewrites example_completed_state by simp
qed

text \<open>
  C6. In every state the component can reach: when the service call a main-pipeline run
  is suspended at fails with an error that is not an abort (the promise rejects, the
  response has no text, or the text is not JSON), the run ends, the phase becomes
  \<open>ERROR\<close> and exactly one entry is appended to the log, of step \<open>ERROR\<close>, whose details
  are the message of the error, or its name when the message is empty; nothing else
  changes. For a response without text the details are ``No response from Gemini''.
  When the failing step is the brainstorm of a run just started, the report is absent and
  the log holds three entries, exactly one of them of step \<open>ERROR\<close>.
\<close>

theorem service_failure_ends_in_error:
  assumes "s = exec evs initial" "\<not> isAbort e"
  shows "(pending s c = Some k \<and> mainPipeline k \<and> serviceOutcome k reply = Some (Inl e) \<longrightarrow>
            react s (Settle c reply) =
              s\<lparr>state := ERROR,
                logs := logs s @
                  [\<lparr>step = ERROR, message = ''An error occurred'',
                    details = TextDetails (if error_message e = [] then error_name e
                                           else error_message e)\<rparr>],
                pending := (pending s)(c := None)\<rparr>) \<and>
         (pending s c = Some k \<and> mainPipeline k \<and> serviceOutcome k reply \<noteq> None \<and>
          noText reply \<longrightarrow>
            react s (Settle c reply) =
              s\<lparr>state := ERROR,
                logs := logs s @
                  [\<lparr>step = ERROR, message = ''An error occurred'',
                    details = TextDetails ''No response from Gemini''\<rparr>],
                pending := (pending s)(c := None)\<rparr>) \<and>
         (trim tpc \<noteq> [] \<and> serviceOutcome (AwaitBrainstorm tpc) reply' = Some (Inl e) \<longrightarrow>
            state (exec [Start tpc, Settle (created s) reply'] s) = ERROR \<and>
            report (exec [Start tpc, Settle (created s) reply'] s) = None \<and>
            filter (\<lambda>l. step l = ERROR) (logs (exec [Start tpc, Settle (created s) reply'] s))
              = [\<lparr>step = ERROR, message = ''An error occurred'',
                  details = TextDetails (if error_message e = [] then error_name e
                                         else error_message e)\<rparr>] \<and>
            length (logs (exec [Start tpc, Settle (created s) reply'] s)) = 3 \<and>
            pending (exec [Start tpc, Settle (created s) reply'] s) (created s) = None)"
proof (intro conjI impI)
  assume "pending s c = Some k \<and> mainPipeline k \<and> serviceOutcome k reply = Some (Inl e)"
  then show "react s (Settle c reply) =
      s\<lparr>state := ERROR,
        logs := logs s @
          [\<lparr>step = ERROR, message = ''An error occurred'',
            details = TextDetails (if error_message e = [] then error_name e
                                   else error_message e)\<rparr>],
        pending := (pending s)(c := None)\<rparr>"
    using assms(2) by (simp add: settle_failure errorEntry_def errorDetails_eq)
next
  assume a: "pending s c = Some k \<and> mainPipeline k \<and> serviceOutcome k reply \<noteq> None \<and>
          noText reply"
  then have o: "serviceOutcome k reply = Some (Inl (Error ''No response from Gemini''))"
    by (simp add: noText_outcome)
  from a show "react s (Settle c reply) =
      s\<lparr>state := ERROR,
        logs := logs s @
          [\<lparr>step = ERROR, message = ''An error occurred'',
            details = TextDetails ''No response from Gemini''\<rparr>],
        pending := (pending s)(c := None)\<rparr>"
    using settle_failure [OF _ _ o no_text_error, of s c]
    by (simp add: errorEntry_def errorDetails_eq Error_def)
next
  assume a: "trim tpc \<noteq> [] \<and> serviceOutcome (AwaitBrainstorm tpc) reply' = Some (Inl e)"
  let ?s1 = "startResearch tpc s"
  let ?entry = "\<lparr>step = ERROR, message = ''An error occurred'',
      details = TextDetails (if error_message e = [] then error_name e else error_message e)\<rparr>"
  have wf: "wellFormed s" using assms(1) by (simp add: reachable_invariants)
  have s1: "pending ?s1 (created s) = Some (AwaitBrainstorm tpc)" "report ?s1 = None"
    "logs ?s1 = startEntries tpc"
    using a by (simp_all add: start_state [OF wf])
  have "exec [Start tpc, Settle (created s) reply'] s = settle (created s) reply' ?s1"
    by (simp add: exec_def)
  also have "\<dots> = ?s1\<lparr>state := ERROR, logs := logs ?s1 @ [errorEntry e],
                      pending := (pending ?s1)(created s := None)\<rparr>"
    using a by (intro settle_failure [OF s1(1) _ _ assms(2)]) simp_all
  finally have r: "exec [Start tpc, Settle (created s) reply'] s =
      ?s1\<lparr>state := ERROR, logs := logs ?s1 @ [?entry],
                      pending := (pending ?s1)(created s := None)\<rparr>"
    by (simp add: errorEntry_def errorDetails_eq)
  show "state (exec [Start tpc, Settle (created s) reply'] s) = ERROR"
    by (simp add: r)
  show "report (exec [Start tpc, Settle (created s) reply'] s) = None"
    by (simp add: r s1)
  show "filter (\<lambda>l. step l = ERROR) (logs (exec [Start tpc, Settle (created s) reply'] s))
              = [?entry]"
    by (simp add: r s1 startEntries_def)
  show "length (logs (exec [Start tpc, Settle (created s) reply'] s)) = 3"
    by (simp add: r s1 startEntries_def)
  show "pending (exec [Start tpc, Settle (created s) reply'] s) (created s) = None"
    by (simp add: r)
qed

theorem service_failure_ends_in_error_witness:
  "state (react (exec example_compiled initial) (Settle 0 (Review NoText))) = ERROR \<and>
   logs (react (exec example_compiled initial) (Settle 0 (Review NoText)))
     = logs (exec example_compiled initial) @
         [\<lparr>step = ERROR, message = ''An error occurred'',
           details = TextDetails ''No response from Gemini''\<rparr>] \<and>
   logs (react (exec example_compiled initial) (Settle 0 (Rejected (JsError ''TypeError'' ''''))))
     = logs (exec example_compiled initial) @
         [\<lparr>step = ERROR, message = ''An error occurred'', details = TextDetails ''TypeError''\<rparr>] \<and>
   state (exec [Start example_topic, Settle 0 (Queries NoText)] initial) = ERROR \<and>
   report (exec [Start example_topic, Settle 0 (Queries NoText)] initial) = None \<and>
   filter (\<lambda>l. step l = ERROR) (logs (exec [Start example_topic, Settle 0 (Queries NoText)] initial))
     = [\<lparr>step = ERROR, message = ''An error occurred'',
          details = TextDetails ''No response from Gemini''\<rparr>]"
proof -
  let ?k = "AwaitReview example_topic [example_query] ''# Report'' example_report"
  have te: "\<not> isAbort (JsError ''TypeError'' '''')" by (simp add: isAbort_def)
  note a = service_failure_ends_in_error [OF refl no_text_error, of example_compiled 0
      ?k "Review NoText", THEN conjunct2, THEN conjunct1]
  note t = service_failure_ends_in_error [OF refl te, of example_compiled 0
      ?k "Rejected (JsError ''TypeError'' '''')", THEN conjunct1]
  note b = service_failure_ends_in_error [OF refl no_text_error, of "[]" 0
      "AwaitBrainstorm example_topic" "Queries NoText" example_topic "Queries NoText",
      THEN conjunct2, THEN conjunct2]
  have o1: "serviceOutcome ?k (Review NoText) \<noteq> None" "noText (Review NoText)"
    "serviceOutcome ?k (Rejected (JsError ''TypeError'' '''')) = Some (Inl (JsError ''TypeError'' ''''))"
    "mainPipeline ?k"
    by simp_all
  have o2: "serviceOutcome (AwaitBrainstorm example_topic) (Queries NoText)
      = Some (Inl (Error ''No response from Gemini''))"
    by (simp add: brainstormQueries_def parseJson_def)
  have tr: "trim example_topic \<noteq> []" by (simp add: example_topic_def string_defs)
  have i: "exec [] initial = initial" "created initial = 0" by (simp_all add: exec_def initial_def)
  from a o1 example_compiled_state(5)
  have 1: "react (exec example_compiled initial) (Settle 0 (Review NoText)) =
      (exec example_compiled initial)\<lparr>state := ERROR,
         logs := logs (exec example_compiled initial) @
           [\<lparr>step = ERROR, message = ''An error occurred'',
             details = TextDetails ''No response from Gemini''\<rparr>],
         pending := (pending (exec example_compiled initial))(0 := None)\<rparr>"
    by blast
  from t o1 example_compiled_state(5)
  have 2: "react (exec example_compiled initial) (Settle 0 (Rejected (JsError ''TypeError'' ''''))) =
      (exec example_compiled initial)\<lparr>state := ERROR,
         logs := logs (exec example_compiled initial) @
           [\<lparr>step = ERROR, message = ''An error occurred'',
             details = TextDetails ''TypeError''\<rparr>],
         pending := (pending (exec example_compiled initial))(0 := None)\<rparr>"
    by simp
  from b [unfolded i] o2 tr
  have 3: "state (exec [Start example_topic, Settle 0 (Queries NoText)] initial) = ERROR \<and>
   report (exec [Start example_topic, Settle 0 (Queries NoText)] initial) = None \<and>
   filter (\<lambda>l. step l = ERROR) (logs (exec [Start example_topic, Settle 0 (Queries NoText)] initial))
     = [\<lparr>step = ERROR, message = ''An error occurred'',
          details = TextDetails ''No response from Gemini''\<rparr>]"
    by (simp add: Error_def)
  have "state (react (exec example_compiled initial) (Settle 0 (Review NoText))) = ERROR"
    "logs (react (exec example_compiled initial) (Settle 0 (Review NoText)))
     = logs (exec example_compiled initial) @
         [\<lparr>step = ERROR, message = ''An error occurred'',
           details = TextDetails ''No response from Gemini''\<rparr>]"
    by (simp_all only: 1) simp_all
  moreover have "logs (react (exec example_compiled initial) (Settle 0 (Rejected (JsError ''TypeError'' ''''))))
     = logs (exec example_compiled initial) @
         [\<lparr>step = ERROR, message = ''An error occurred'', details = TextDetails ''TypeError''\<rparr>]"
    by (simp only: 2) simp
  ultimately show ?thesis using 3 by blast
qed

text \<open>
  C5. A stop while a main-pipeline run awaits a service call ends the run in \<open>IDLE\<close>
  with the entry ``Research stopped by user.'' when the call then returns a value
  (\<open>stop_then_reply_ends_idle\<close> above). When the call fails after the stop, the error
  of the service function is thrown before the run checks its signal, and the run ends in
  \<open>ERROR\<close> with an \<open>ERROR\<close> entry. The follow-up path does what the claim says at the
  same input: \<^verbatim>\<open>askFollowUp\<close> checks the signal before the text, and a stop followed by
  a response without text ends with ``Follow-up stopped by user.'' and no \<open>ERROR\<close> entry.
\<close>

theorem stop_then_failure_ends_in_error:
  "state (exec [Start example_topic] initial) = BRAINSTORMING \<and>
   state (exec [Start example_topic, Stop, Settle 0 (Queries NoText)] initial) = ERROR \<and>
   logs (exec [Start example_topic, Stop, Settle 0 (Queries NoText)] initial)
     = startEntries example_topic @
         [\<lparr>step = ERROR, message = ''An error occurred'',
           details = TextDetails ''No response from Gemini''\<rparr>] \<and>
   state (exec (example_approved @ [FollowUp ''cost?'']) initial) = SEARCHING \<and>
   state (exec (example_approved @ [FollowUp ''cost?'', Stop, Settle 1 (Grounded None None)])
            initial) = COMPLETED \<and>
   logs (exec (example_approved @ [FollowUp ''cost?'', Stop, Settle 1 (Grounded None None)])
           initial)
     = logs (exec (example_approved @ [FollowUp ''cost?'']) initial) @
         [\<lparr>step = COMPLETED, message = ''Follow-up stopped by user.'', details = NoDetails\<rparr>]"
  by (simp add: controller_defs service_defs string_defs example_defs startEntries_def)

text \<open>
  C8. In every state the component can reach in which a report exists: a follow-up whose
  call returns a text gives a report whose markdown is the old markdown followed by the
  follow-up section, whose sources are the old sources followed by the returned sources
  with a new uri, and whose topic, score, feedback and version are those of the old
  report.
\<close>

theorem followUp_extends_report_only:
  assumes "s = exec evs initial" "report s = Some rep" "truthy body"
  shows "\<exists>r. report (exec [FollowUp q, Settle (created s) (Grounded body chunks)] s) = Some r \<and>
     markdown r = markdown rep @ followUpSection q (the body) \<and>
     sources r = sources rep @ filter (\<lambda>x. uri x \<notin> set (map uri (sources rep)))
                                  (groundedSources chunks) \<and>
     topic r = topic rep \<and> score r = score rep \<and> feedback r = feedback rep \<and>
     version r = version rep"
proof -
  let ?s1 = "handleFollowUp q s"
  have wf: "wellFormed s" using assms(1) by (simp add: reachable_invariants)
  have f: "created s \<notin> aborted (stopResearch s)" using wf
    by (auto simp: stopResearch_def wellFormed_def split: option.splits)
  have s1: "pending ?s1 (created s) = Some (AwaitFollowUp rep q)" "created s \<notin> aborted ?s1"
    using f by (simp_all add: followUp_state [OF wf assms(2)])
  have "exec [FollowUp q, Settle (created s) (Grounded body chunks)] s
      = settle (created s) (Grounded body chunks) ?s1"
    by (simp add: exec_def)
  then show ?thesis
    by (simp add: settle_followUp [OF s1 assms(3)])
qed

theorem followUp_extends_report_only_witness:
  "\<exists>r. report (exec [FollowUp ''cost?'', Settle 1 (Grounded (Some ''High.'') (Some followUp_chunks))]
                 (exec example_approved initial)) = Some r \<and>
     markdown r = ''# Report'' @ followUpSection ''cost?'' ''High.'' \<and>
     sources r = [\<lparr>title = ''A'', uri = ''https://a''\<rparr>, \<lparr>title = ''B'', uri = ''https://b''\<rparr>] \<and>
     score r = Some 5 \<and> feedback r = Some ''fine'' \<and> version r = 1"
proof -
  have t: "truthy (Some ''High.'')" by simp
  note a = followUp_extends_report_only [OF refl example_approved_state(1) t,
      of "''cost?''" "Some followUp_chunks"]
  show ?thesis using a
    by (auto simp: example_approved_state(2) followUp_chunks_sources example_report_def)
qed

text \<open>
  C4, as the code has it. \<^verbatim>\<open>reviewReport\<close> returns the parsed review as it is, and the
  controller never reads \<^verbatim>\<open>approved\<close>: a review with the flag changed leads to the same
  state. The decision is taken on the score and the retry counter: a run that is not
  cancelled completes on a review exactly when the score is at least 4 or no retry is
  left.
\<close>

theorem decision_reads_score_only:
  "reviewReport (JsonOf review) = Inr review \<and>
   react s (Settle c (Review (JsonOf (review\<lparr>approved := b\<rparr>))))
     = react s (Settle c (Review (JsonOf review))) \<and>
   (pending s c = Some (AwaitReview tpc qs md tmp) \<and> c \<notin> aborted s \<longrightarrow>
      (state (react s (Settle c (Review (JsonOf review)))) = COMPLETED
         \<longleftrightarrow> 4 \<le> review_score review \<or> MAX_RETRIES \<le> retryCount s))"
proof (intro conjI impI)
  show "reviewReport (JsonOf review) = Inr review"
    by (simp add: reviewReport_def parseJson_def)
  show "react s (Settle c (Review (JsonOf (review\<lparr>approved := b\<rparr>))))
     = react s (Settle c (Review (JsonOf review)))"
    by (simp add: settle_ignores_approved)
next
  assume a: "pending s c = Some (AwaitReview tpc qs md tmp) \<and> c \<notin> aborted s"
  show "state (react s (Settle c (Review (JsonOf review)))) = COMPLETED
         \<longleftrightarrow> 4 \<le> review_score review \<or> MAX_RETRIES \<le> retryCount s"
  proof (cases "review_score review < 4 \<and> retryCount s < MAX_RETRIES")
    case True
    with a show ?thesis by (simp add: settle_review_rewrite)
  next
    case False
    with a show ?thesis by (auto simp: settle_review_complete)
  qed
qed

theorem decision_reads_score_only_witness:
  "reviewReport (JsonOf odd_review) = Inr odd_review \<and>
   react (exec example_compiled initial) (Settle 0 (Review (JsonOf (odd_review\<lparr>approved := False\<rparr>))))
     = react (exec example_compiled initial) (Settle 0 (Review (JsonOf odd_review))) \<and>
   state (react (exec example_compiled initial) (Settle 0 (Review (JsonOf odd_review)))) \<noteq> COMPLETED"
proof -
  note a = decision_reads_score_only [of odd_review "exec example_compiled initial" 0 False
      example_topic "[example_query]" "''# Report''" example_report]
  have "\<not> (4 \<le> review_score odd_review \<or> MAX_RETRIES \<le> retryCount (exec example_compiled initial))"
    by (simp add: odd_review_def example_compiled_state MAX_RETRIES_def)
  moreover have "0 \<notin> aborted (exec example_compiled initial)"
    by (simp add: example_compiled_state)
  ultimately show ?thesis using a example_compiled_state(5) by blast
qed

text \<open>
  C4 as stated fails: nothing ties \<^verbatim>\<open>approved\<close> to the score. The service can return
  a review with score 2 and \<^verbatim>\<open>approved\<close> true; the controller acts on it (it records
  the score and starts a rewrite).
\<close>

theorem approved_not_tied_to_score:
  "reviewReport (JsonOf odd_review) = Inr odd_review \<and>
   approved odd_review \<and> review_score odd_review = 2 \<and>
   state (exec example_compiled initial) = REVIEWING \<and>
   state (exec (example_compiled @ [Settle 0 (Review (JsonOf odd_review))]) initial) = REWRITING \<and>
   retryCount (exec (example_compiled @ [Settle 0 (Review (JsonOf odd_review))]) initial) = 1 \<and>
   report (exec (example_compiled @ [Settle 0 (Review (JsonOf odd_review))]) initial)
     = Some (example_report\<lparr>score := Some 2, feedback := Some ''thin''\<rparr>)"
  by (simp add: controller_defs service_defs string_defs example_defs)

text \<open>
  C7. A second start while the first run is suspended aborts the first signal and makes
  a new controller; but when the reply to the first run's call arrives, the first run
  throws \<^verbatim>\<open>Aborted\<close> and its \<^verbatim>\<open>handleError\<close> sets the phase to \<open>IDLE\<close> and appends
  ``Research stopped by user.'' to the log, both of which belong to the second run by
  then. The second run is still suspended at its brainstorm call. The same happens on a
  sequence the user interface allows, where the second start comes after a follow-up that
  was asked and answered while the first run awaited its review.
\<close>

theorem stale_reply_changes_phase_and_log:
  "state (exec [Start ''first topic'', Start ''second topic''] initial) = BRAINSTORMING \<and>
   logs (exec [Start ''first topic'', Start ''second topic''] initial)
     = startEntries ''second topic'' \<and>
   state (exec [Start ''first topic'', Start ''second topic'',
                Settle 0 (Queries (JsonOf [example_query]))] initial) = IDLE \<and>
   logs (exec [Start ''first topic'', Start ''second topic'',
               Settle 0 (Queries (JsonOf [example_query]))] initial)
     = startEntries ''second topic'' @ [stoppedEntry] \<and>
   pending (exec [Start ''first topic'', Start ''second topic'',
                  Settle 0 (Queries (JsonOf [example_query]))] initial) 1
     = Some (AwaitBrainstorm ''second topic'') \<and>
   state (exec example_compiled initial) = REVIEWING \<and>
   \<not> isRunning (exec followUp_during_review initial) \<and>
   state (exec (followUp_during_review @ [Start ''second topic'']) initial) = BRAINSTORMING \<and>
   state (exec (followUp_during_review @ [Start ''second topic'',
                  Settle 0 (Review (JsonOf good_review))]) initial) = IDLE \<and>
   logs (exec (followUp_during_review @ [Start ''second topic'',
                  Settle 0 (Review (JsonOf good_review))]) initial)
     = startEntries ''second topic'' @ [stoppedEntry] \<and>
   pending (exec (followUp_during_review @ [Start ''second topic'',
                  Settle 0 (Review (JsonOf good_review))]) initial) 2
     = Some (AwaitBrainstorm ''second topic'')"
  by (simp add: controller_defs service_defs string_defs example_defs startEntries_def
        stoppedEntry_def isRunning_def)

text \<open>
  C3, as the code has it. The deduplication of \<^verbatim>\<open>searchAndCompile\<close> and
  \<^verbatim>\<open>askFollowUp\<close> returns a list without two entries of equal uri; the uris stand in the
  order in which they are first seen, and the entry kept for a uri is the last one of
  the input with that uri. In every state the component can reach, the sources of the
  report have no two entries of equal uri. A compile or rewrite pass sets the sources to
  the deduplicated list; a follow-up keeps the existing entries and appends, in order, the
  returned entries whose uri is not among them.
\<close>

theorem sources_unique_by_uri:
  assumes "s = exec evs initial"
  shows "distinct (map uri (uniqueSources xs)) \<and>
     map uri (uniqueSources xs) = map uri (firstSeenWins xs) \<and>
     (\<forall>x\<in>set (uniqueSources xs). x = last (filter (\<lambda>y. uri y = uri x) xs)) \<and>
     (\<forall>r. report s = Some r \<longrightarrow> distinct (map uri (sources r))) \<and>
     (pending s c = Some (AwaitSearchAndCompile tpc qs fb prev) \<and> c \<notin> aborted s \<and> truthy body
        \<longrightarrow> (\<exists>r. report (react s (Settle c (Grounded body chunks))) = Some r \<and>
                 sources r = groundedSources chunks)) \<and>
     (pending s c = Some (AwaitFollowUp rep q) \<and> c \<notin> aborted s \<and> truthy body
        \<longrightarrow> (\<exists>r. report (react s (Settle c (Grounded body chunks))) = Some r \<and>
                 sources r = sources rep @ filter (\<lambda>x. uri x \<notin> set (map uri (sources rep)))
                                              (groundedSources chunks)))"
proof -
  have "sourcesInvariant s" using assms by (simp add: reachable_invariants)
  then have inv: "\<forall>r. report s = Some r \<longrightarrow> distinct (map uri (sources r))"
    by (simp add: sourcesInvariant_def distinctUris_def)
  have last: "\<forall>x\<in>set (uniqueSources xs). x = last (filter (\<lambda>y. uri y = uri x) xs)"
    using uniqueSources_last by blast
  show ?thesis using inv last
    by (simp add: distinct_uniqueSources uris_firstSeenWins settle_compile settle_followUp)
qed

theorem sources_unique_by_uri_witness:
  "distinct (map uri (uniqueSources duplicate_sources)) \<and>
   map uri (firstSeenWins duplicate_sources) = [''https://a'', ''https://b''] \<and>
   uniqueSources duplicate_sources =
     [\<lparr>title = ''Second'', uri = ''https://a''\<rparr>, \<lparr>title = ''B'', uri = ''https://b''\<rparr>] \<and>
   (\<exists>r. report (exec example_approved initial) = Some r \<and> distinct (map uri (sources r)))"
proof -
  note a = sources_unique_by_uri [OF refl, of duplicate_sources example_approved]
  from a have 1: "distinct (map uri (uniqueSources duplicate_sources))"
    and 2: "map uri (uniqueSources duplicate_sources) = map uri (firstSeenWins duplicate_sources)"
    and 3: "\<forall>r. report (exec example_approved initial) = Some r \<longrightarrow> distinct (map uri (sources r))"
    by blast+
  from 2 have "map uri (firstSeenWins duplicate_sources) = [''https://a'', ''https://b'']"
    by (simp add: duplicate_sources_unique)
  moreover from 3 example_approved_state(1)
  have "\<exists>r. report (exec example_approved initial) = Some r \<and> distinct (map uri (sources r))"
    by blast
  ultimately show ?thesis using 1 duplicate_sources_unique by simp
qed

text \<open>
  C3 as stated fails on which entry wins: \<^verbatim>\<open>new Map(entries)\<close> overwrites the value of a
  key that is present, so of two entries with the same uri the later one is kept (at the
  place of the earlier one), not the first.
\<close>

theorem last_entry_of_a_uri_wins:
  "uniqueSources duplicate_sources =
     [\<lparr>title = ''Second'', uri = ''https://a''\<rparr>, \<lparr>title = ''B'', uri = ''https://b''\<rparr>] \<and>
   firstSeenWins duplicate_sources =
     [\<lparr>title = ''First'', uri = ''https://a''\<rparr>, \<lparr>title = ''B'', uri = ''https://b''\<rparr>]"
  by (simp add: service_defs duplicate_sources_def firstSeenWins_def)

end
